theory Spec2Isabelle
  imports Main "HOL-Library.Sublist"
begin

section \<open>The static asset server of \<^verbatim>\<open>vironax-localization-fix.js\<close>\<close>

text \<open>
  The second document of \<^verbatim>\<open>src/assets/vironax-localization-fix.js\<close> (lines 304 to 392)
  is a Node.js static file server: the constants \<^verbatim>\<open>PORT\<close>, \<^verbatim>\<open>ROOT_DIR\<close>,
  \<^verbatim>\<open>PUBLIC_DIR\<close> and \<^verbatim>\<open>MIME_TYPES\<close>, the function \<^verbatim>\<open>resolveFilePath\<close> and the
  request handler given to \<^verbatim>\<open>http.createServer\<close>.

  A JavaScript string is represented by the list of the bytes of its UTF-8 encoding
  (\<^typ>\<open>string\<close>). The operations of the server inspect only the ASCII characters
  \<^verbatim>\<open>? % / .\<close> and the backslash, the hexadecimal digits and the letters of the extensions in the MIME
  table, and copy every other character, so they act on the encoding as they act on the
  UTF-16 code units of the runtime.

  The runtime functions the server calls (\<^verbatim>\<open>decodeURIComponent\<close>, \<^verbatim>\<open>Number.parseInt\<close>,
  \<^verbatim>\<open>path.normalize\<close>, \<^verbatim>\<open>path.join\<close>, \<^verbatim>\<open>path.extname\<close>, \<^verbatim>\<open>fs.statSync\<close>,
  \<^verbatim>\<open>fs.existsSync\<close>, \<^verbatim>\<open>res.writeHead\<close>) are not code of the repository. They are
  defined here after ECMA-262 and the Node.js documentation, \<^verbatim>\<open>path\<close> in its POSIX
  variant.
\<close>

subsection \<open>JavaScript errors\<close>

datatype js_error =
    URIError
  | FsError string
  | ERR_HTTP_HEADERS_SENT

subsection \<open>Splitting and joining strings\<close>

text \<open>\<^verbatim>\<open>s.split(c)\<close> for a one-character separator: never empty, \<^verbatim>\<open>"".split(c)\<close> is
  \<^verbatim>\<open>[""]\<close>. A character other than the separator is put in front of the first piece of
  the rest; the rest always has a first piece, so the branch for \<open>[]\<close> is never taken.\<close>

fun split_on :: "char \<Rightarrow> string \<Rightarrow> string list" where
  "split_on c [] = [[]]"
| "split_on c (x # xs) =
     (if x = c then [] # split_on c xs
      else (case split_on c xs of [] \<Rightarrow> [[x]] | s # ss \<Rightarrow> (x # s) # ss))"

text \<open>\<^verbatim>\<open>segs.join(sep)\<close>.\<close>

fun join_with :: "string \<Rightarrow> string list \<Rightarrow> string" where
  "join_with sep [] = []"
| "join_with sep [s] = s"
| "join_with sep (s # t # ss) = s @ sep @ join_with sep (t # ss)"

subsection \<open>\<^verbatim>\<open>decodeURIComponent\<close> (ECMA-262, Decode with an empty preserved set)\<close>

definition hexval :: "char \<Rightarrow> nat option" where
  "hexval c =
     (let n = (of_char c :: nat) in
      if 48 \<le> n \<and> n \<le> 57 then Some (n - 48)
      else if 65 \<le> n \<and> n \<le> 70 then Some (n - 55)
      else if 97 \<le> n \<and> n \<le> 102 then Some (n - 87)
      else None)"

text \<open>The octet of an escape \<^verbatim>\<open>%XX\<close> at the start of the string (ParseHexOctet).\<close>

definition hex_octet :: "string \<Rightarrow> nat option" where
  "hex_octet s =
     (case s of
        p # h1 # h2 # _ \<Rightarrow>
          (if p = CHR ''%'' then
             (case hexval h1 of
                None \<Rightarrow> None
              | Some a \<Rightarrow> (case hexval h2 of None \<Rightarrow> None | Some b \<Rightarrow> Some (16 * a + b)))
           else None)
      | _ \<Rightarrow> None)"

text \<open>The octets of \<open>n\<close> consecutive escapes.\<close>

fun hex_octets :: "nat \<Rightarrow> string \<Rightarrow> nat list option" where
  "hex_octets 0 s = Some []"
| "hex_octets (Suc n) s =
     (case hex_octet s of
        None \<Rightarrow> None
      | Some b \<Rightarrow> (case hex_octets n (drop 3 s) of None \<Rightarrow> None | Some bs \<Rightarrow> Some (b # bs)))"

text \<open>The number of octets announced by a leading octet: the count of its leading
  one bits, \<open>0\<close> where Decode throws (a continuation octet, or more than four).\<close>

definition utf8_length :: "nat \<Rightarrow> nat" where
  "utf8_length b =
     (if b < 128 then 1
      else if b < 192 then 0
      else if b < 224 then 2
      else if b < 240 then 3
      else if b < 248 then 4
      else 0)"

definition continuation :: "nat \<Rightarrow> bool" where
  "continuation b = (128 \<le> b \<and> b < 192)"

text \<open>Well-formed UTF-8 sequences of one code point (no overlong form, no surrogate,
  at most U+10FFFF).\<close>

fun valid_utf8 :: "nat list \<Rightarrow> bool" where
  "valid_utf8 [a] = (a < 128)"
| "valid_utf8 [a, b] = (194 \<le> a \<and> a < 224 \<and> continuation b)"
| "valid_utf8 [a, b, c] =
     (224 \<le> a \<and> a < 240 \<and> continuation b \<and> continuation c \<and>
      (a = 224 \<longrightarrow> 160 \<le> b) \<and> (a = 237 \<longrightarrow> b < 160))"
| "valid_utf8 [a, b, c, d] =
     (240 \<le> a \<and> a < 245 \<and> continuation b \<and> continuation c \<and> continuation d \<and>
      (a = 240 \<longrightarrow> 144 \<le> b) \<and> (a = 244 \<longrightarrow> b < 144))"
| "valid_utf8 _ = False"

function decodeURIComponent :: "string \<Rightarrow> js_error + string" where
  "decodeURIComponent [] = Inr []"
| "decodeURIComponent (c # cs) =
     (if c \<noteq> CHR ''%'' then
        (case decodeURIComponent cs of Inl e \<Rightarrow> Inl e | Inr r \<Rightarrow> Inr (c # r))
      else
        (case hex_octet (c # cs) of
           None \<Rightarrow> Inl URIError
         | Some b \<Rightarrow>
             (let n = utf8_length b in
              if n = 0 then Inl URIError
              else
                (case hex_octets n (c # cs) of
                   None \<Rightarrow> Inl URIError
                 | Some octets \<Rightarrow>
                     (if valid_utf8 octets then
                        (case decodeURIComponent (drop (3 * n - 1) cs) of
                           Inl e \<Rightarrow> Inl e
                         | Inr r \<Rightarrow> Inr (map char_of octets @ r))
                      else Inl URIError)))))"
  by pat_completeness auto
termination
  by (relation "measure length") auto

subsection \<open>\<^verbatim>\<open>path.posix\<close>\<close>

text \<open>\<^verbatim>\<open>normalizeString\<close> of \<^verbatim>\<open>lib/path.js\<close>, read on the segments between slashes:
  \<open>res\<close> is the list of segments kept so far. An empty segment and \<^verbatim>\<open>.\<close> are dropped;
  \<^verbatim>\<open>..\<close> removes the last kept segment unless there is none or it is \<^verbatim>\<open>..\<close>, in which
  case it is kept when \<open>allowAboveRoot\<close> holds and dropped otherwise.\<close>

fun normalizeSegments :: "bool \<Rightarrow> string list \<Rightarrow> string list \<Rightarrow> string list" where
  "normalizeSegments allowAboveRoot res [] = res"
| "normalizeSegments allowAboveRoot res (seg # segs) =
     (if seg = [] \<or> seg = ''.'' then normalizeSegments allowAboveRoot res segs
      else if seg = ''..'' then
        (if res \<noteq> [] \<and> last res \<noteq> ''..''
         then normalizeSegments allowAboveRoot (butlast res) segs
         else if allowAboveRoot then normalizeSegments allowAboveRoot (res @ [''..'']) segs
         else normalizeSegments allowAboveRoot res segs)
      else normalizeSegments allowAboveRoot (res @ [seg]) segs)"

definition normalizeString :: "string \<Rightarrow> bool \<Rightarrow> string" where
  "normalizeString path allowAboveRoot =
     join_with ''/'' (normalizeSegments allowAboveRoot [] (split_on CHR ''/'' path))"

definition normalize_path :: "string \<Rightarrow> string" where
  "normalize_path path =
     (if path = [] then ''.''
      else
        (let isAbsolute = (hd path = CHR ''/'');
             trailingSeparator = (last path = CHR ''/'');
             p = normalizeString path (\<not> isAbsolute)
         in if p = [] then (if isAbsolute then ''/'' else if trailingSeparator then ''./'' else ''.'')
            else (if isAbsolute then ''/'' else []) @ p @ (if trailingSeparator then ''/'' else [])))"

text \<open>\<^verbatim>\<open>path.normalize\<close> is \<open>normalize_path\<close> above. \<^verbatim>\<open>path.join(a, b)\<close>: the non-empty arguments
  joined by a slash, normalized.\<close>

definition join :: "string \<Rightarrow> string \<Rightarrow> string" where
  "join a b =
     (let args = filter (\<lambda>arg. arg \<noteq> []) [a, b]
      in if args = [] then ''.'' else normalize_path (join_with ''/'' args))"

text \<open>\<^verbatim>\<open>path.extname\<close>: of the last component (trailing slashes ignored), the part from
  its last dot on; empty when there is no dot, when the component starts with its last
  dot, and for the component \<^verbatim>\<open>..\<close>.\<close>

definition basename_part :: "string \<Rightarrow> string" where
  "basename_part path =
     last (split_on CHR ''/'' (rev (dropWhile (\<lambda>c. c = CHR ''/'') (rev path))))"

definition extname :: "string \<Rightarrow> string" where
  "extname path =
     (let base = basename_part path;
          after = rev (takeWhile (\<lambda>c. c \<noteq> CHR ''.'') (rev base))
      in if CHR ''.'' \<notin> set base then []
         else if length after + 1 = length base then []
         else if base = ''..'' then []
         else CHR ''.'' # after)"

subsection \<open>The configuration (lines 308 to 324)\<close>

text \<open>\<^verbatim>\<open>TrimString\<close> at the start: the length in bytes of a white space or line
  terminator code point at the start of the string, \<open>0\<close> when there is none.\<close>

definition whiteSpaceLength :: "string \<Rightarrow> nat" where
  "whiteSpaceLength s =
     (let bs = (map of_char s :: nat list) in
      if bs \<noteq> [] \<and> hd bs \<in> {9, 10, 11, 12, 13, 32} then 1
      else if take 2 bs = [194, 160] then 2
      else if take 3 bs \<in> {[225, 154, 128], [226, 129, 159], [227, 128, 128], [239, 187, 191]}
        then 3
      else if take 2 bs = [226, 128] \<and> 3 \<le> length bs \<and>
              ((128 \<le> bs ! 2 \<and> bs ! 2 \<le> 138) \<or> bs ! 2 \<in> {168, 169, 175})
        then 3
      else 0)"

function trimStart :: "string \<Rightarrow> string" where
  "trimStart [] = []"
| "trimStart (c # cs) =
     (let n = whiteSpaceLength (c # cs)
      in if n = 0 then c # cs else trimStart (drop (n - 1) cs))"
  by pat_completeness auto
termination
  by (relation "measure length") auto

definition isDigit :: "char \<Rightarrow> bool" where
  "isDigit c = (48 \<le> (of_char c :: nat) \<and> (of_char c :: nat) \<le> 57)"

text \<open>The value of a string of decimal digits.\<close>

definition decimal :: "string \<Rightarrow> int" where
  "decimal ds = foldl (\<lambda>acc c. 10 * acc + (of_char c - 48)) 0 ds"

text \<open>The Numbers that \<^verbatim>\<open>parseInt\<close> can return: \<^verbatim>\<open>NaN\<close>, a double whose value is an
  integer, and the two infinities. The two zeros are one value here; both are falsy.\<close>

datatype number = NaN | Finite int | PosInfinity | NegInfinity

text \<open>The number of binary digits of a positive integer.\<close>

function bitLength :: "int \<Rightarrow> nat" where
  "bitLength n = (if n \<le> 0 then 0 else Suc (bitLength (n div 2)))"
  by pat_completeness auto
termination
  by (relation "measure nat") auto

declare bitLength.simps [simp del]

text \<open>The double nearest to a non-negative integer, ties going to the even significand
  of 53 bits: below \<open>2^53\<close> every such integer is a double; above, the \<open>k\<close> binary digits
  beyond the first 53 are rounded away. From \<open>2^1024\<close> on the rounded value is not
  finite.\<close>

definition roundToDouble :: "int \<Rightarrow> int" where
  "roundToDouble n =
     (if n < 2 ^ 53 then n
      else
        (let k = bitLength n - 53;
             q = n div 2 ^ k;
             r = n mod 2 ^ k
         in (if 2 ^ k < 2 * r \<or> (2 * r = 2 ^ k \<and> odd q) then q + 1 else q) * 2 ^ k))"

definition toNumber :: "int \<Rightarrow> number" where
  "toNumber n =
     (let v = roundToDouble n in if 2 ^ 1024 \<le> v then PosInfinity else Finite v)"

fun negate :: "number \<Rightarrow> number" where
  "negate NaN = NaN"
| "negate (Finite v) = Finite (- v)"
| "negate PosInfinity = NegInfinity"
| "negate NegInfinity = PosInfinity"

text \<open>\<^verbatim>\<open>Number.parseInt(s, 10)\<close> as the runtime of Node.js computes it: leading white
  space is removed, a sign is read, the longest run of decimal digits is taken, and
  the result is the double nearest to their value, \<^verbatim>\<open>NaN\<close> when there is no digit.\<close>

definition parseInt10 :: "string \<Rightarrow> number" where
  "parseInt10 inputString =
     (let S = trimStart inputString;
          negative = (S \<noteq> [] \<and> hd S = CHR ''-'');
          S' = (if S \<noteq> [] \<and> (hd S = CHR ''+'' \<or> hd S = CHR ''-'') then tl S else S);
          Z = takeWhile isDigit S'
      in if Z = [] then NaN
         else if negative then negate (toNumber (decimal Z)) else toNumber (decimal Z))"

text \<open>\<^verbatim>\<open>const PORT = Number.parseInt(process.env.PORT, 10) || 3000\<close>. The environment
  variable is \<open>None\<close> when it is not set; \<^verbatim>\<open>parseInt\<close> then reads the string
  \<^verbatim>\<open>undefined\<close>. \<^verbatim>\<open>NaN\<close> and zero are the falsy numbers.\<close>

definition PORT :: "string option \<Rightarrow> number" where
  "PORT env =
     (case parseInt10 (case env of None \<Rightarrow> ''undefined'' | Some s \<Rightarrow> s) of
        NaN \<Rightarrow> Finite 3000
      | Finite n \<Rightarrow> if n = 0 then Finite 3000 else Finite n
      | PosInfinity \<Rightarrow> PosInfinity
      | NegInfinity \<Rightarrow> NegInfinity)"

text \<open>\<^verbatim>\<open>ROOT_DIR\<close> is \<^verbatim>\<open>__dirname\<close>, the absolute path of the directory of the script:
  a parameter \<open>root\<close> of what follows.\<close>

definition PUBLIC_DIR :: "string \<Rightarrow> string" where
  "PUBLIC_DIR root = join root ''public''"

definition MIME_TYPES :: "(string \<times> string) list" where
  "MIME_TYPES =
     [(''.html'', ''text/html; charset=utf-8''),
      (''.css'', ''text/css; charset=utf-8''),
      (''.js'', ''application/javascript; charset=utf-8''),
      (''.json'', ''application/json; charset=utf-8''),
      (''.png'', ''image/png''),
      (''.jpg'', ''image/jpeg''),
      (''.jpeg'', ''image/jpeg''),
      (''.gif'', ''image/gif''),
      (''.svg'', ''image/svg+xml''),
      (''.ico'', ''image/x-icon''),
      (''.txt'', ''text/plain; charset=utf-8'')]"

subsection \<open>The file system\<close>

text \<open>What \<^verbatim>\<open>fs.statSync\<close> finds at a path: a regular file, a directory, another kind
  of entry, or a failure with its error code (\<^verbatim>\<open>ENOENT\<close>, \<^verbatim>\<open>ENOTDIR\<close>, \<^verbatim>\<open>EACCES\<close>, ...).
  What a read stream on a path emits: chunks, then its end or an error.\<close>

datatype stat_result = IsFile | IsDirectory | IsOther | StatError string

datatype stream_event = Data string | StreamEnd | StreamError

record filesystem =
  stat_of :: "string \<Rightarrow> stat_result"
  stream_of :: "string \<Rightarrow> stream_event list"

definition statSync :: "filesystem \<Rightarrow> string \<Rightarrow> js_error + stat_result" where
  "statSync fs p = (case stat_of fs p of StatError code \<Rightarrow> Inl (FsError code) | r \<Rightarrow> Inr r)"

definition existsSync :: "filesystem \<Rightarrow> string \<Rightarrow> bool" where
  "existsSync fs p = (case stat_of fs p of StatError code \<Rightarrow> False | _ \<Rightarrow> True)"

subsection \<open>\<^verbatim>\<open>resolveFilePath\<close> (lines 326 to 355)\<close>

text \<open>The \<^verbatim>\<open>replace\<close> of line 328, whose pattern is anchored at the start and matches
  one or more groups of two dots and a slash or a backslash (\<open>CHR 0x5C\<close>): the longest
  prefix made of such groups is removed.\<close>

fun stripLeadingParents :: "string \<Rightarrow> string" where
  "stripLeadingParents (a # b # c # rest) =
     (if a = CHR ''.'' \<and> b = CHR ''.'' \<and> (c = CHR ''/'' \<or> c = CHR 0x5C)
      then stripLeadingParents rest else a # b # c # rest)"
| "stripLeadingParents s = s"

text \<open>Lines 327 to 329: the relative path of a request path, or the \<^verbatim>\<open>URIError\<close> of
  \<^verbatim>\<open>decodeURIComponent\<close>.\<close>

definition relativePathOf :: "string \<Rightarrow> js_error + string" where
  "relativePathOf requestPath =
     (case decodeURIComponent (hd (split_on CHR ''?'' requestPath)) of
        Inl e \<Rightarrow> Inl e
      | Inr decodedPath \<Rightarrow>
          (let normalizedPath = stripLeadingParents (normalize_path decodedPath);
               relativePath = (if normalizedPath = ''/'' then ''/index.html'' else normalizedPath)
           in Inr relativePath))"

definition candidatesOf :: "string \<Rightarrow> string \<Rightarrow> string list" where
  "candidatesOf root relativePath =
     [join (PUBLIC_DIR root) relativePath, join root relativePath]"

text \<open>The loop of lines 335 to 352 over the candidates. \<open>Inl\<close> is the rethrown error,
  \<open>Inr None\<close> is \<^verbatim>\<open>null\<close>.\<close>

fun probe :: "filesystem \<Rightarrow> string list \<Rightarrow> js_error + string option" where
  "probe fs [] = Inr None"
| "probe fs (candidate # rest) =
     (case statSync fs candidate of
        Inl error \<Rightarrow> (if error \<noteq> FsError ''ENOENT'' then Inl error else probe fs rest)
      | Inr stats \<Rightarrow>
          (if stats = IsFile then Inr (Some candidate)
           else if stats = IsDirectory then
             (let indexPath = join candidate ''index.html''
              in if existsSync fs indexPath then Inr (Some indexPath) else probe fs rest)
           else probe fs rest))"

definition resolveFilePath :: "filesystem \<Rightarrow> string \<Rightarrow> string \<Rightarrow> js_error + string option" where
  "resolveFilePath fs root requestPath =
     (case relativePathOf requestPath of
        Inl e \<Rightarrow> Inl e
      | Inr relativePath \<Rightarrow> probe fs (candidatesOf root relativePath))"

subsection \<open>The request handler (lines 357 to 388)\<close>

text \<open>The response object: the status and content type given to \<^verbatim>\<open>writeHead\<close> (none
  before the call), the body written so far, and whether \<^verbatim>\<open>end\<close> was called.
  \<^verbatim>\<open>writeHead\<close> throws \<^verbatim>\<open>ERR_HTTP_HEADERS_SENT\<close> once the header is there.\<close>

record response =
  header :: "(nat \<times> string) option"
  body :: string
  ended :: bool

definition freshResponse :: response where
  "freshResponse = \<lparr>header = None, body = [], ended = False\<rparr>"

definition writeHead :: "nat \<Rightarrow> string \<Rightarrow> response \<Rightarrow> js_error + response" where
  "writeHead code contentType res =
     (if header res \<noteq> None then Inl ERR_HTTP_HEADERS_SENT
      else Inr (res\<lparr>header := Some (code, contentType)\<rparr>))"

definition writeChunk :: "string \<Rightarrow> response \<Rightarrow> response" where
  "writeChunk chunk res = res\<lparr>body := body res @ chunk\<rparr>"

definition end_with :: "string \<Rightarrow> response \<Rightarrow> response" where
  "end_with chunk res = res\<lparr>body := body res @ chunk, ended := True\<rparr>"

definition respond :: "nat \<Rightarrow> string \<Rightarrow> response \<Rightarrow> js_error + response" where
  "respond code text res =
     (case writeHead code ''text/plain; charset=utf-8'' res of
        Inl e \<Rightarrow> Inl e
      | Inr r \<Rightarrow> Inr (end_with text r))"

text \<open>\<^verbatim>\<open>toLowerCase\<close> on the ASCII letters. The only code points outside ASCII whose
  lowercase form contains an ASCII letter are U+0130 (it gives \<^verbatim>\<open>i\<close> followed by U+0307)
  and U+212A (it gives \<^verbatim>\<open>k\<close>); no key of \<^verbatim>\<open>MIME_TYPES\<close> arises from them, so the lookup
  of line 380 does not depend on how the other characters are mapped.\<close>

definition toLowerCase :: "string \<Rightarrow> string" where
  "toLowerCase s =
     map (\<lambda>c. let n = (of_char c :: nat) in if 65 \<le> n \<and> n \<le> 90 then char_of (n + 32) else c) s"

text \<open>Lines 379 and 380. A key of \<^verbatim>\<open>MIME_TYPES\<close> is never the empty string, so the
  \<^verbatim>\<open>||\<close> takes the default exactly when the key is absent.\<close>

definition contentTypeOf :: "string \<Rightarrow> string" where
  "contentTypeOf filePath =
     (let ext = toLowerCase (extname filePath)
      in case map_of MIME_TYPES ext of
           None \<Rightarrow> ''application/octet-stream''
         | Some t \<Rightarrow> t)"

text \<open>The handler either completes the response at once, or has written the header
  and pipes the read stream of a file into the response.\<close>

datatype handled = Completed response | Piping response string

definition requestHandler ::
  "filesystem \<Rightarrow> string \<Rightarrow> string option \<Rightarrow> response \<Rightarrow> js_error + handled" where
  "requestHandler fs root url res =
     (case url of
        None \<Rightarrow> map_sum id Completed (respond 400 ''Bad Request'' res)
      | Some u \<Rightarrow>
          (if u = [] then map_sum id Completed (respond 400 ''Bad Request'' res)
           else
             (case resolveFilePath fs root u of
                Inl error \<Rightarrow> map_sum id Completed (respond 500 ''Internal Server Error'' res)
              | Inr None \<Rightarrow> map_sum id Completed (respond 404 ''Not Found'' res)
              | Inr (Some filePath) \<Rightarrow>
                  (if filePath = [] then map_sum id Completed (respond 404 ''Not Found'' res)
                   else
                     (case writeHead 200 (contentTypeOf filePath) res of
                        Inl e \<Rightarrow> Inl e
                      | Inr r \<Rightarrow> Inr (Piping r filePath))))))"

text \<open>The events of the piped stream, after the handler has returned: a chunk is
  written to the response, the end of the stream ends it, and an error runs the
  listener of lines 383 to 386. An exception of the listener is uncaught.\<close>

fun pipeEvents :: "stream_event list \<Rightarrow> response \<Rightarrow> js_error + response" where
  "pipeEvents [] res = Inr res"
| "pipeEvents (Data chunk # evs) res = pipeEvents evs (writeChunk chunk res)"
| "pipeEvents (StreamEnd # evs) res = Inr (res\<lparr>ended := True\<rparr>)"
| "pipeEvents (StreamError # evs) res = respond 500 ''Internal Server Error'' res"

definition serve :: "filesystem \<Rightarrow> string \<Rightarrow> string option \<Rightarrow> js_error + response" where
  "serve fs root url =
     (case requestHandler fs root url freshResponse of
        Inl e \<Rightarrow> Inl e
      | Inr (Completed r) \<Rightarrow> Inr r
      | Inr (Piping r filePath) \<Rightarrow> pipeEvents (stream_of fs filePath) r)"

subsection \<open>Where a path lies\<close>

text \<open>A path lies inside a base directory when the components of the base are the
  first components of the path.\<close>

definition pathSegments :: "string \<Rightarrow> string list" where
  "pathSegments p = filter (\<lambda>seg. seg \<noteq> []) (split_on CHR ''/'' p)"

definition inside :: "string \<Rightarrow> string \<Rightarrow> bool" where
  "inside base p = prefix (pathSegments base) (pathSegments p)"

text \<open>What \<^verbatim>\<open>__dirname\<close> is: an absolute path without \<^verbatim>\<open>.\<close> or \<^verbatim>\<open>..\<close>
  components.\<close>

definition absoluteDir :: "string \<Rightarrow> bool" where
  "absoluteDir root =
     (root \<noteq> [] \<and> hd root = CHR ''/'' \<and>
      ''.'' \<notin> set (split_on CHR ''/'' root) \<and> ''..'' \<notin> set (split_on CHR ''/'' root))"

subsection \<open>Shapes of paths\<close>

text \<open>A kept segment of a normalized path: not empty, not \<^verbatim>\<open>.\<close>, not \<^verbatim>\<open>..\<close>, without
  a slash.\<close>

definition okSeg :: "string \<Rightarrow> bool" where
  "okSeg seg = (seg \<noteq> [] \<and> seg \<noteq> ''.'' \<and> seg \<noteq> ''..'' \<and> CHR ''/'' \<notin> set seg)"

text \<open>A list of segments whose \<^verbatim>\<open>..\<close> segments all come first.\<close>

definition parentsThenNone :: "string list \<Rightarrow> bool" where
  "parentsThenNone segs = (''..'' \<notin> set (dropWhile (\<lambda>s. s = ''..'') segs))"

subsection \<open>The wording of the specification\<close>

text \<open>What a candidate yields, in the words of the specification: nothing when it
  does not exist; itself when it is a regular file; its \<^verbatim>\<open>index.html\<close> when it is a
  directory and that entry is present; nothing otherwise.\<close>

definition candidateYields :: "filesystem \<Rightarrow> string \<Rightarrow> string option" where
  "candidateYields fs candidate =
     (if \<not> existsSync fs candidate then None
      else if stat_of fs candidate = IsFile then Some candidate
      else if stat_of fs candidate = IsDirectory \<and> existsSync fs (join candidate ''index.html'')
        then Some (join candidate ''index.html'')
      else None)"

text \<open>The error that \<^verbatim>\<open>statSync\<close> throws on a candidate and that the loop rethrows:
  any error other than \<^verbatim>\<open>ENOENT\<close>.\<close>

definition statFailure :: "filesystem \<Rightarrow> string \<Rightarrow> js_error option" where
  "statFailure fs candidate =
     (case stat_of fs candidate of
        StatError code \<Rightarrow> if code \<noteq> ''ENOENT'' then Some (FsError code) else None
      | _ \<Rightarrow> None)"

text \<open>The MIME table of the specification, matched on the lowercased extension.\<close>

definition specContentType :: "string \<Rightarrow> string" where
  "specContentType ext =
     (let e = toLowerCase ext in
      if e = ''.html'' then ''text/html; charset=utf-8''
      else if e = ''.css'' then ''text/css; charset=utf-8''
      else if e = ''.js'' then ''application/javascript; charset=utf-8''
      else if e = ''.json'' then ''application/json; charset=utf-8''
      else if e = ''.png'' then ''image/png''
      else if e = ''.jpg'' \<or> e = ''.jpeg'' then ''image/jpeg''
      else if e = ''.gif'' then ''image/gif''
      else if e = ''.svg'' then ''image/svg+xml''
      else if e = ''.ico'' then ''image/x-icon''
      else if e = ''.txt'' then ''text/plain; charset=utf-8''
      else ''application/octet-stream'')"

subsection \<open>A file system to run the server on\<close>

text \<open>The server is installed in \<^verbatim>\<open>/srv/app\<close>. Its public directory holds
  \<^verbatim>\<open>index.html\<close>, \<^verbatim>\<open>app.js\<close>, \<^verbatim>\<open>data.bin\<close>, \<^verbatim>\<open>photo.PNG\<close>, a file \<^verbatim>\<open>secret.txt\<close>
  that cannot be opened for reading, a directory \<^verbatim>\<open>foo.png\<close> with an \<^verbatim>\<open>index.html\<close>,
  and a directory \<^verbatim>\<open>docs\<close> whose entry \<^verbatim>\<open>index.html\<close> is itself a directory. The
  directory \<^verbatim>\<open>/srv\<close> above the installation holds an \<^verbatim>\<open>index.html\<close> of its own.
  A path that goes on below a regular file, or names a regular file with a slash after
  it, fails with \<^verbatim>\<open>ENOTDIR\<close>; any other path that is not listed fails with
  \<^verbatim>\<open>ENOENT\<close>.\<close>

definition exampleStats :: "(string \<times> stat_result) list" where
  "exampleStats =
     [(''/'', IsDirectory),
      (''/srv'', IsDirectory),
      (''/srv/index.html'', IsFile),
      (''/srv/app'', IsDirectory),
      (''/srv/app/server.js'', IsFile),
      (''/srv/app/public'', IsDirectory),
      (''/srv/app/public/index.html'', IsFile),
      (''/srv/app/public/app.js'', IsFile),
      (''/srv/app/public/data.bin'', IsFile),
      (''/srv/app/public/photo.PNG'', IsFile),
      (''/srv/app/public/secret.txt'', IsFile),
      (''/srv/app/public/foo.png'', IsDirectory),
      (''/srv/app/public/foo.png/index.html'', IsFile),
      (''/srv/app/public/docs'', IsDirectory),
      (''/srv/app/public/docs/index.html'', IsDirectory)]"

definition exampleStreams :: "(string \<times> stream_event list) list" where
  "exampleStreams =
     [(''/srv/index.html'', [Data ''above'', StreamEnd]),
      (''/srv/app/server.js'', [Data ''const http'', StreamEnd]),
      (''/srv/app/public/index.html'', [Data ''<h1>'', Data ''Shop</h1>'', StreamEnd]),
      (''/srv/app/public/app.js'', [Data ''let x;'', StreamEnd]),
      (''/srv/app/public/data.bin'', [Data ''0101'', StreamEnd]),
      (''/srv/app/public/photo.PNG'', [Data ''PNG'', StreamEnd]),
      (''/srv/app/public/foo.png/index.html'', [Data ''<p>foo</p>'', StreamEnd])]"

definition ancestorsOf :: "string \<Rightarrow> string list" where
  "ancestorsOf p =
     (let segs = pathSegments p
      in map (\<lambda>k. CHR ''/'' # join_with ''/'' (take k segs)) [0..<length segs])"

definition exampleStat :: "string \<Rightarrow> stat_result" where
  "exampleStat p =
     (if list_ex (\<lambda>a. map_of exampleStats a = Some IsFile) (ancestorsOf p)
      then StatError ''ENOTDIR''
      else
        (case map_of exampleStats (CHR ''/'' # join_with ''/'' (pathSegments p)) of
           None \<Rightarrow> StatError ''ENOENT''
         | Some r \<Rightarrow>
             if r = IsFile \<and> p \<noteq> [] \<and> last p = CHR ''/'' then StatError ''ENOTDIR'' else r))"

definition exampleFs :: filesystem where
  "exampleFs =
     \<lparr>stat_of = exampleStat,
      stream_of = (\<lambda>p. case map_of exampleStreams p of None \<Rightarrow> [StreamError] | Some evs \<Rightarrow> evs)\<rparr>"

section \<open>Properties\<close>

subsection \<open>Splitting, joining and normalizing\<close>

lemma split_on_not_Nil [simp]: "split_on c s \<noteq> []"
  by (induction s) (auto split: list.splits)

lemma split_on_append_sep: "split_on c (a @ c # b) = split_on c a @ split_on c b"
  by (induction a) (auto split: list.splits)

lemma split_on_free: "c \<notin> set s \<Longrightarrow> split_on c s = [s]"
  by (induction s) (auto split: list.splits)

lemma split_on_segments_free: "seg \<in> set (split_on c s) \<Longrightarrow> c \<notin> set seg"
proof (induction s arbitrary: seg)
  case Nil
  then show ?case by simp
next
  case (Cons x xs)
  show ?case
  proof (cases "x = c")
    case True
    with Cons show ?thesis by auto
  next
    case False
    obtain f fs where sp: "split_on c xs = f # fs"
      by (cases "split_on c xs") auto
    with Cons False show ?thesis by auto
  qed
qed

lemma join_with_split_on: "join_with [c] (split_on c s) = s"
proof (induction s)
  case Nil
  then show ?case by simp
next
  case (Cons x xs)
  obtain f fs where sp: "split_on c xs = f # fs"
    by (cases "split_on c xs") auto
  with Cons show ?case by (cases fs) auto
qed

lemma split_on_join_with:
  "segs \<noteq> [] \<Longrightarrow> \<forall>seg\<in>set segs. c \<notin> set seg \<Longrightarrow> split_on c (join_with [c] segs) = segs"
proof (induction segs)
  case Nil
  then show ?case by simp
next
  case (Cons s ss)
  show ?case
  proof (cases ss)
    case Nil
    with Cons.prems show ?thesis by (simp add: split_on_free)
  next
    case (Cons t ts)
    with Cons.IH Cons.prems have "split_on c (join_with [c] ss) = ss" by simp
    with Cons Cons.prems show ?thesis
      using split_on_append_sep[of c s "join_with [c] ss"] by (simp add: split_on_free)
  qed
qed


lemma normalizeSegments_append:
  "normalizeSegments a res (xs @ ys) = normalizeSegments a (normalizeSegments a res xs) ys"
  by (induction xs arbitrary: res) auto

lemma normalizeSegments_parents:
  assumes "\<forall>seg\<in>set segs. CHR ''/'' \<notin> set seg" "list_all okSeg ns"
  shows "\<exists>m' ns'. normalizeSegments a (replicate m ''..'' @ ns) segs = replicate m' ''..'' @ ns'
            \<and> list_all okSeg ns' \<and> (\<not> a \<and> m = 0 \<longrightarrow> m' = 0)"
  using assms
proof (induction segs arbitrary: m ns)
  case Nil
  then show ?case by auto
next
  case (Cons seg segs)
  have free: "\<forall>seg\<in>set segs. CHR ''/'' \<notin> set seg" using Cons.prems by simp
  show ?case
  proof (cases "seg = [] \<or> seg = ''.''")
    case True
    then show ?thesis using Cons.IH[OF free Cons.prems(2), of m] by auto
  next
    case False
    note nf = False
    show ?thesis
    proof (cases "seg = ''..''")
      case True
      show ?thesis
      proof (cases "ns = []")
        case True
        note nsE = True
        show ?thesis
        proof (cases a)
          case True
          have "list_all okSeg []" by simp
          from Cons.IH[OF free this, of "Suc m"] True nsE \<open>seg = ''..''\<close>
          show ?thesis by (auto simp: replicate_append_same)
        next
          case False
          have e: "list_all okSeg []" by simp
          show ?thesis
          proof (cases m)
            case 0
            with Cons.IH[OF free e, of 0] False nsE \<open>seg = ''..''\<close> show ?thesis by auto
          next
            case (Suc k)
            with Cons.IH[OF free e, of m] False nsE \<open>seg = ''..''\<close> show ?thesis
              by (auto simp: replicate_append_same)
          qed
        qed
      next
        case False
        then have l: "last ns \<noteq> ''..''" using Cons.prems(2)
          by (metis last_in_set list_all_iff okSeg_def)
        have b: "list_all okSeg (butlast ns)" using Cons.prems(2)
          by (metis in_set_butlastD list_all_iff)
        have "butlast (replicate m ''..'' @ ns) = replicate m ''..'' @ butlast ns"
          using False by (simp add: butlast_append)
        with Cons.IH[OF free b, of m] False l \<open>seg = ''..''\<close> show ?thesis by auto
      qed
    next
      case False
      then have "okSeg seg" using nf Cons.prems(1) by (simp add: okSeg_def)
      then have "list_all okSeg (ns @ [seg])" using Cons.prems(2) by simp
      from Cons.IH[OF free this, of m] False nf show ?thesis by auto
    qed
  qed
qed



lemma parentsThenNone_replicate:
  "''..'' \<notin> set rest \<Longrightarrow> parentsThenNone (replicate m ''..'' @ rest)"
  unfolding parentsThenNone_def
  by (induction m) (auto dest: set_dropWhileD)

lemma okSeg_not_parent: "list_all okSeg ns \<Longrightarrow> ''..'' \<notin> set ns"
  by (auto simp: list_all_iff okSeg_def)

lemma okSeg_nonempty: "list_all okSeg ns \<Longrightarrow> \<forall>seg\<in>set ns. seg \<noteq> []"
  by (simp add: list_all_iff okSeg_def)

lemma okSeg_free: "list_all okSeg ns \<Longrightarrow> \<forall>seg\<in>set ns. CHR ''/'' \<notin> set seg"
  by (auto simp: list_all_iff okSeg_def)

lemma join_with_Nil_iff:
  "\<forall>seg\<in>set segs. seg \<noteq> [] \<Longrightarrow> join_with sep segs = [] \<longleftrightarrow> segs = []"
  by (induction sep segs rule: join_with.induct) auto

lemma split_on_snoc_sep: "split_on c (a @ [c]) = split_on c a @ [[]]"
  using split_on_append_sep[of c a "[]"] by simp

lemma normalize_segments:
  "parentsThenNone (split_on CHR ''/'' (normalize_path p))"
proof (cases "p = []")
  case True
  then show ?thesis by (simp add: normalize_path_def parentsThenNone_def)
next
  case False
  define a where "a = (hd p \<noteq> CHR ''/'')"
  define stack where "stack = normalizeSegments a [] (split_on CHR ''/'' p)"
  have "\<forall>seg\<in>set (split_on CHR ''/'' p). CHR ''/'' \<notin> set seg"
    using split_on_segments_free by blast
  from normalizeSegments_parents[OF this, of "[]" a 0]
  have "\<exists>m ns. stack = replicate m ''..'' @ ns \<and> list_all okSeg ns \<and> (\<not> a \<longrightarrow> m = 0)"
    unfolding stack_def by simp
  then obtain m ns where st: "stack = replicate m ''..'' @ ns" and ok: "list_all okSeg ns"
    and abs: "\<not> a \<longrightarrow> m = 0"
    by blast
  have free: "\<forall>seg\<in>set stack. CHR ''/'' \<notin> set seg"
    using st okSeg_free[OF ok] by auto
  have nonempty: "\<forall>seg\<in>set stack. seg \<noteq> []"
    using st okSeg_nonempty[OF ok] by auto
  have np: "''..'' \<notin> set ns" using ok by (rule okSeg_not_parent)
  show ?thesis
  proof (cases "stack = []")
    case True
    then have "normalizeString p a = []" by (simp add: normalizeString_def stack_def)
    then show ?thesis using False
      by (simp add: normalize_path_def a_def parentsThenNone_def Let_def)
  next
    case False
    note ne = False
    have sp: "split_on CHR ''/'' (join_with ''/'' stack) = stack"
      using split_on_join_with[OF False free] .
    have str: "normalizeString p a = join_with ''/'' stack"
      by (simp add: normalizeString_def stack_def)
    have strne: "join_with ''/'' stack \<noteq> []"
      using join_with_Nil_iff[OF nonempty] False by simp
    have n: "normalize_path p =
        (if a then [] else ''/'') @ join_with ''/'' stack @ (if last p = CHR ''/'' then ''/'' else [])"
      using \<open>p \<noteq> []\<close> str strne by (simp add: normalize_path_def a_def Let_def)
    have sp2: "split_on CHR ''/'' (normalize_path p) =
        (if a then [] else [[]]) @ stack @ (if last p = CHR ''/'' then [[]] else [])"
      unfolding n using sp split_on_snoc_sep[of "CHR ''/''" "join_with ''/'' stack"]
      by simp
    show ?thesis
    proof (cases a)
      case True
      have "''..'' \<notin> set (ns @ (if last p = CHR ''/'' then [[]] else []))"
        using np by simp
      from parentsThenNone_replicate[OF this, of m] show ?thesis
        unfolding sp2 st using True by simp
    next
      case False
      then have m0: "m = 0" using abs by simp
      have "''..'' \<notin> set ([[]] @ ns @ (if last p = CHR ''/'' then [[]] else []))"
        using np by simp
      from parentsThenNone_replicate[OF this, of 0] show ?thesis
        unfolding sp2 st using False m0 by simp
    qed
  qed
qed

lemma split_on_singleton: "split_on c t = [s] \<Longrightarrow> t = s"
  using join_with_split_on[of c t] by simp

lemma split_on_parent_first:
  assumes "split_on CHR ''/'' t = ''..'' # x # xs"
  shows "\<exists>rest. t = CHR ''.'' # CHR ''.'' # CHR ''/'' # rest"
proof -
  have "t = join_with ''/'' (split_on CHR ''/'' t)" by (simp add: join_with_split_on)
  then show ?thesis using assms by simp
qed

lemma unstripped_parents:
  assumes "parentsThenNone (split_on CHR ''/'' t)"
    and "\<And>rest. t \<noteq> CHR ''.'' # CHR ''.'' # CHR ''/'' # rest"
  shows "t = ''..'' \<or> ''..'' \<notin> set (split_on CHR ''/'' t)"
proof (cases "''..'' \<in> set (split_on CHR ''/'' t)")
  case False
  then show ?thesis by simp
next
  case True
  obtain f fs where sp: "split_on CHR ''/'' t = f # fs"
    by (cases "split_on CHR ''/'' t") auto
  have "f = ''..''"
  proof (rule ccontr)
    assume "f \<noteq> ''..''"
    then show False using assms(1) True sp by (simp add: parentsThenNone_def)
  qed
  show ?thesis
  proof (cases fs)
    case Nil
    then show ?thesis using sp \<open>f = ''..''\<close> split_on_singleton by blast
  next
    case (Cons x xs)
    then show ?thesis using sp \<open>f = ''..''\<close> split_on_parent_first assms(2) by blast
  qed
qed

lemma parentsThenNone_tail:
  "''..'' \<notin> set fs \<Longrightarrow> parentsThenNone (f # fs)"
  by (auto simp: parentsThenNone_def dest: set_dropWhileD)

lemma stripLeadingParents_segments:
  "parentsThenNone (split_on CHR ''/'' t) \<Longrightarrow>
   stripLeadingParents t = ''..'' \<or> ''..'' \<notin> set (split_on CHR ''/'' (stripLeadingParents t))"
proof (induction t rule: stripLeadingParents.induct)
  case (1 a b c rest)
  show ?case
  proof (cases "a = CHR ''.'' \<and> b = CHR ''.'' \<and> (c = CHR ''/'' \<or> c = CHR 0x5C)")
    case True
    note cond = True
    show ?thesis
    proof (cases "c = CHR ''/''")
      case True
      with cond "1.prems" have "parentsThenNone (split_on CHR ''/'' rest)"
        by (simp add: parentsThenNone_def)
      with "1.IH" cond show ?thesis by simp
    next
      case False
      with cond have c: "c = CHR 0x5C" by simp
      obtain f fs where sp: "split_on CHR ''/'' rest = f # fs"
        by (cases "split_on CHR ''/'' rest") auto
      have "''..'' \<notin> set fs" using "1.prems" cond c sp
        by (simp add: parentsThenNone_def)
      then have "parentsThenNone (split_on CHR ''/'' rest)"
        using sp parentsThenNone_tail by simp
      with "1.IH" cond show ?thesis by simp
    qed
  next
    case False
    then have "stripLeadingParents (a # b # c # rest) = a # b # c # rest" by auto
    moreover have "\<And>r. a # b # c # rest \<noteq> CHR ''.'' # CHR ''.'' # CHR ''/'' # r"
      using False by auto
    ultimately show ?thesis using unstripped_parents[OF "1.prems"] by simp
  qed
qed (auto split: list.splits if_splits)


lemma normalizeSegments_clean:
  "''..'' \<notin> set segs \<Longrightarrow>
   normalizeSegments a res segs = res @ filter (\<lambda>s. s \<noteq> [] \<and> s \<noteq> ''.'') segs"
  by (induction segs arbitrary: res) auto

lemma join_with_snoc:
  "join_with sep (xs @ [x]) = (if xs = [] then x else join_with sep xs @ sep @ x)"
  by (induction sep xs rule: join_with.induct) auto

lemma normalize_path_nonempty [simp]: "normalize_path p \<noteq> []"
  by (simp add: normalize_path_def Let_def)

lemma join_nonempty [simp]: "join a b \<noteq> []"
  by (simp add: join_def Let_def)

lemma normalize_path_absolute:
  assumes "q \<noteq> []" "hd q = CHR ''/''" "''..'' \<notin> set (split_on CHR ''/'' q)"
  shows "absoluteDir (normalize_path q) \<and>
         pathSegments (normalize_path q) = filter (\<lambda>s. s \<noteq> [] \<and> s \<noteq> ''.'') (split_on CHR ''/'' q)"
proof -
  define ks where "ks = filter (\<lambda>s. s \<noteq> [] \<and> s \<noteq> ''.'') (split_on CHR ''/'' q)"
  have st: "normalizeString q False = join_with ''/'' ks"
    using normalizeSegments_clean[OF assms(3), of False "[]"]
    by (simp add: normalizeString_def ks_def)
  have free: "\<forall>seg\<in>set ks. CHR ''/'' \<notin> set seg"
    using split_on_segments_free by (auto simp: ks_def)
  have nonempty: "\<forall>seg\<in>set ks. seg \<noteq> []" by (simp add: ks_def)
  have clean: "''.'' \<notin> set ks" "''..'' \<notin> set ks" "[] \<notin> set ks"
    using assms(3) by (auto simp: ks_def)
  show ?thesis
  proof (cases "ks = []")
    case True
    then have "normalize_path q = ''/''"
      using assms(1,2) st by (simp add: normalize_path_def Let_def)
    then show ?thesis using True by (simp add: absoluteDir_def pathSegments_def ks_def)
  next
    case False
    have ne: "join_with ''/'' ks \<noteq> []" using join_with_Nil_iff[OF nonempty] False by simp
    have sp: "split_on CHR ''/'' (join_with ''/'' ks) = ks"
      using split_on_join_with[OF False free] .
    have n: "normalize_path q = CHR ''/'' # join_with ''/'' ks @ (if last q = CHR ''/'' then ''/'' else [])"
      using assms(1,2) st ne by (simp add: normalize_path_def Let_def)
    have fk: "filter (\<lambda>seg. seg \<noteq> []) ks = ks" using nonempty by (simp add: filter_id_conv)
    show ?thesis
    proof (cases "last q = CHR ''/''")
      case True
      then have "split_on CHR ''/'' (normalize_path q) = [] # ks @ [[]]"
        using n sp split_on_snoc_sep[of "CHR ''/''" "join_with ''/'' ks"] by simp
      then show ?thesis using clean n fk
        by (simp add: absoluteDir_def pathSegments_def ks_def[symmetric])
    next
      case False
      then have "split_on CHR ''/'' (normalize_path q) = [] # ks"
        using n sp by simp
      then show ?thesis using clean n fk
        by (simp add: absoluteDir_def pathSegments_def ks_def[symmetric])
    qed
  qed
qed

lemma pathSegments_absoluteDir:
  "absoluteDir base \<Longrightarrow>
   pathSegments base = filter (\<lambda>s. s \<noteq> [] \<and> s \<noteq> ''.'') (split_on CHR ''/'' base)"
  unfolding pathSegments_def absoluteDir_def
  by (intro filter_cong) auto

lemma join_absolute:
  assumes "absoluteDir base" "''..'' \<notin> set (split_on CHR ''/'' rel)"
  shows "absoluteDir (join base rel) \<and> inside base (join base rel)"
proof -
  define q where "q = (if rel = [] then base else base @ CHR ''/'' # rel)"
  have b: "base \<noteq> []" "hd base = CHR ''/''" "''..'' \<notin> set (split_on CHR ''/'' base)"
    using assms(1) by (auto simp: absoluteDir_def)
  have j: "join base rel = normalize_path q"
    using b(1) by (simp add: join_def q_def)
  have q: "q \<noteq> []" "hd q = CHR ''/''" using b by (auto simp: q_def)
  have sp: "''..'' \<notin> set (split_on CHR ''/'' q)"
    using b(3) assms(2) by (auto simp: q_def split_on_append_sep)
  have pre: "prefix (filter (\<lambda>s. s \<noteq> [] \<and> s \<noteq> ''.'') (split_on CHR ''/'' base))
                    (filter (\<lambda>s. s \<noteq> [] \<and> s \<noteq> ''.'') (split_on CHR ''/'' q))"
    by (auto simp: q_def split_on_append_sep)
  show ?thesis
    using normalize_path_absolute[OF q sp] pre pathSegments_absoluteDir[OF assms(1)]
    by (simp add: j inside_def)
qed

lemma inside_trans: "inside a b \<Longrightarrow> inside b c \<Longrightarrow> inside a c"
  unfolding inside_def by (rule prefix_order.trans)

lemma index_html_segments: "''..'' \<notin> set (split_on CHR ''/'' ''index.html'')"
  by simp

lemma probe_result:
  "probe fs cs = Inr (Some p) \<Longrightarrow> \<exists>c\<in>set cs. p = c \<or> p = join c ''index.html''"
proof (induction cs)
  case Nil
  then show ?case by simp
next
  case (Cons c cs)
  then show ?case
    by (auto simp: statSync_def Let_def split: stat_result.splits if_splits)
qed

subsection \<open>The index file and the resolved path\<close>

lemma normalize_path_index:
  "\<exists>y. normalize_path (c @ ''/index.html'') = y @ ''index.html'' \<and> (y = [] \<or> last y = CHR ''/'')"
proof -
  define q where "q = c @ ''/index.html''"
  define a where "a = (hd q \<noteq> CHR ''/'')"
  define st0 where "st0 = normalizeSegments a [] (split_on CHR ''/'' c)"
  have sp: "split_on CHR ''/'' q = split_on CHR ''/'' c @ [''index.html'']"
    unfolding q_def using split_on_append_sep[of "CHR ''/''" c "''index.html''"] by simp
  have st: "normalizeSegments a [] (split_on CHR ''/'' q) = st0 @ [''index.html'']"
    unfolding sp normalizeSegments_append st0_def by simp
  have str: "normalizeString q a =
      (if st0 = [] then ''index.html'' else join_with ''/'' st0 @ ''/index.html'')"
    unfolding normalizeString_def st join_with_snoc by simp
  have q: "q \<noteq> []" "last q \<noteq> CHR ''/''" by (simp_all add: q_def)
  have n: "normalize_path q = (if a then [] else ''/'') @ normalizeString q a"
    using q str by (simp add: normalize_path_def a_def Let_def)
  show ?thesis
  proof (cases "st0 = []")
    case True
    then have "normalize_path q = (if a then [] else ''/'') @ ''index.html''"
      using n str by simp
    then show ?thesis unfolding q_def by (cases a) auto
  next
    case False
    then have "normalize_path q = ((if a then [] else ''/'') @ join_with ''/'' st0 @ ''/'') @ ''index.html''"
      using n str by simp
    moreover have "last ((if a then [] else ''/'') @ join_with ''/'' st0 @ ''/'') = CHR ''/''"
      by simp
    ultimately show ?thesis unfolding q_def by blast
  qed
qed

lemma basename_part_index:
  assumes "y = [] \<or> last y = CHR ''/''"
  shows "basename_part (y @ ''index.html'') = ''index.html''"
proof -
  have d: "rev (dropWhile (\<lambda>c. c = CHR ''/'') (rev (y @ ''index.html''))) = y @ ''index.html''"
    by simp
  show ?thesis
  proof (cases "y = []")
    case True
    then show ?thesis unfolding basename_part_def d by simp
  next
    case False
    then obtain y' where y: "y = y' @ ''/''" using assms
      by (metis append_butlast_last_id)
    have "split_on CHR ''/'' (y @ ''index.html'') = split_on CHR ''/'' y' @ [''index.html'']"
      unfolding y using split_on_append_sep[of "CHR ''/''" y' "''index.html''"] by simp
    then show ?thesis unfolding basename_part_def d by simp
  qed
qed

lemma extname_index:
  assumes "y = [] \<or> last y = CHR ''/''"
  shows "extname (y @ ''index.html'') = ''.html''"
  unfolding extname_def basename_part_index[OF assms] by simp

lemma extname_normalize_index: "extname (normalize_path (c @ ''/index.html'')) = ''.html''"
proof -
  obtain y where "normalize_path (c @ ''/index.html'') = y @ ''index.html''"
    and "y = [] \<or> last y = CHR ''/''"
    using normalize_path_index[of c] by blast
  then show ?thesis using extname_index[of y] by simp
qed

lemma extname_join_index: "c \<noteq> [] \<Longrightarrow> extname (join c ''index.html'') = ''.html''"
  using extname_normalize_index[of c] by (simp add: join_def)

lemma contentTypeOf_html: "extname p = ''.html'' \<Longrightarrow> contentTypeOf p = ''text/html; charset=utf-8''"
  by (simp add: contentTypeOf_def toLowerCase_def MIME_TYPES_def)

lemma join_nonempty' [simp]: "[] \<noteq> join a b"
  using join_nonempty[of a b] by metis

lemma candidates_nonempty: "c \<in> set (candidatesOf root rel) \<Longrightarrow> c \<noteq> []"
  by (auto simp: candidatesOf_def)

lemma probe_nonempty:
  "probe fs cs = Inr (Some p) \<Longrightarrow> \<forall>c\<in>set cs. c \<noteq> [] \<Longrightarrow> p \<noteq> []"
  using probe_result[of fs cs p] by auto

lemma resolveFilePath_nonempty:
  "resolveFilePath fs root u = Inr (Some p) \<Longrightarrow> p \<noteq> []"
  unfolding resolveFilePath_def
  using probe_nonempty[of fs _ p] candidates_nonempty
  by (auto split: sum.splits)

lemma requestHandler_found:
  assumes "u \<noteq> []" "resolveFilePath fs root u = Inr (Some p)"
  shows "requestHandler fs root (Some u) freshResponse =
     Inr (Piping \<lparr>header = Some (200, contentTypeOf p), body = [], ended = False\<rparr> p)"
  using assms resolveFilePath_nonempty[OF assms(2)]
  by (simp add: requestHandler_def writeHead_def freshResponse_def)

lemma relativePathOf_segments:
  assumes "relativePathOf u = Inr rel"
  shows "rel = ''..'' \<or> ''..'' \<notin> set (split_on CHR ''/'' rel)"
proof -
  obtain d where d: "decodeURIComponent (hd (split_on CHR ''?'' u)) = Inr d"
    using assms by (auto simp: relativePathOf_def split: sum.splits)
  define s where "s = stripLeadingParents (normalize_path d)"
  have rel: "rel = (if s = ''/'' then ''/index.html'' else s)"
    using assms d by (auto simp: relativePathOf_def s_def Let_def split: if_splits)
  have "s = ''..'' \<or> ''..'' \<notin> set (split_on CHR ''/'' s)"
    unfolding s_def using stripLeadingParents_segments[OF normalize_segments] .
  then show ?thesis unfolding rel by auto
qed

text \<open>A request path that starts with a slash never has the relative path \<^verbatim>\<open>..\<close>.\<close>

lemma decode_slash:
  "decodeURIComponent (CHR ''/'' # w) = Inr d \<Longrightarrow> \<exists>d'. d = CHR ''/'' # d'"
  by (auto split: sum.splits)

lemma normalize_path_slash: "\<exists>x. normalize_path (CHR ''/'' # d) = CHR ''/'' # x"
  by (simp add: normalize_path_def Let_def)

lemma slash_request_relative:
  assumes "relativePathOf (CHR ''/'' # u) = Inr rel"
  shows "rel \<noteq> ''..''"
proof -
  have h: "hd (split_on CHR ''?'' (CHR ''/'' # u)) = CHR ''/'' # hd (split_on CHR ''?'' u)"
    by (cases "split_on CHR ''?'' u") simp_all
  obtain d where d: "decodeURIComponent (CHR ''/'' # hd (split_on CHR ''?'' u)) = Inr d"
    using assms unfolding relativePathOf_def h by (auto split: sum.splits)
  then obtain d' where d': "d = CHR ''/'' # d'" using decode_slash by blast
  obtain x where x: "normalize_path d = CHR ''/'' # x"
    using normalize_path_slash d' by blast
  have "stripLeadingParents (CHR ''/'' # x) = CHR ''/'' # x"
    by (cases x rule: stripLeadingParents.cases) auto
  then have "rel = (if CHR ''/'' # x = ''/'' then ''/index.html'' else CHR ''/'' # x)"
    using assms d x unfolding relativePathOf_def h by (auto simp: Let_def)
  then show ?thesis by auto
qed

lemma PUBLIC_DIR_absolute:
  "absoluteDir root \<Longrightarrow> absoluteDir (PUBLIC_DIR root) \<and> inside root (PUBLIC_DIR root)"
  unfolding PUBLIC_DIR_def by (rule join_absolute) simp_all

lemma index_absolute:
  "absoluteDir c \<Longrightarrow> absoluteDir (join c ''index.html'') \<and> inside c (join c ''index.html'')"
  by (rule join_absolute) simp_all


subsection \<open>The loop over the candidates, the content type, the port\<close>

lemma probe_step:
  "probe fs (c # cs) =
     (case statFailure fs c of
        Some e \<Rightarrow> Inl e
      | None \<Rightarrow> (case candidateYields fs c of Some p \<Rightarrow> Inr (Some p) | None \<Rightarrow> probe fs cs))"
  by (auto simp: statFailure_def candidateYields_def statSync_def existsSync_def Let_def
      split: stat_result.splits)

lemma serve_thrown:
  "u \<noteq> [] \<Longrightarrow> resolveFilePath fs root u = Inl e \<Longrightarrow>
   serve fs root (Some u) =
     Inr \<lparr>header = Some (500, ''text/plain; charset=utf-8''),
          body = ''Internal Server Error'', ended = True\<rparr>"
  by (simp add: serve_def requestHandler_def respond_def writeHead_def end_with_def
      freshResponse_def)

lemma probe_file: "stat_of fs c = IsFile \<Longrightarrow> probe fs (c # cs) = Inr (Some c)"
  by (simp add: statSync_def)

lemma serve_not_found:
  "u \<noteq> [] \<Longrightarrow> resolveFilePath fs root u = Inr None \<Longrightarrow>
   serve fs root (Some u) =
     Inr \<lparr>header = Some (404, ''text/plain; charset=utf-8''), body = ''Not Found'', ended = True\<rparr>"
  by (simp add: serve_def requestHandler_def respond_def writeHead_def end_with_def
      freshResponse_def)

lemma contentTypeOf_spec: "contentTypeOf filePath = specContentType (extname filePath)"
  by (simp add: contentTypeOf_def specContentType_def MIME_TYPES_def Let_def)

lemma pipe_one_chunk:
  "pipeEvents [Data d, StreamEnd] \<lparr>header = h, body = [], ended = False\<rparr> =
     Inr \<lparr>header = h, body = d, ended = True\<rparr>"
  by (simp add: writeChunk_def)

text \<open>Where the resolver stays inside the base directories: whenever the relative
  path of the request is not exactly \<^verbatim>\<open>..\<close>, which by \<open>slash_request_relative\<close>
  holds for every request path that starts with a slash.\<close>

lemma resolved_path_inside_bases:
  assumes "absoluteDir root" and "relativePathOf u = Inr rel" and "rel \<noteq> ''..''"
    and "resolveFilePath fs root u = Inr (Some p)"
  shows "(inside (PUBLIC_DIR root) p \<or> inside root p) \<and> absoluteDir p \<and>
         inside (PUBLIC_DIR root) (join (PUBLIC_DIR root) rel) \<and> inside root (join root rel)"
proof -
  have seg: "''..'' \<notin> set (split_on CHR ''/'' rel)"
    using relativePathOf_segments[OF assms(2)] assms(3) by simp
  have pub: "absoluteDir (PUBLIC_DIR root)" using PUBLIC_DIR_absolute[OF assms(1)] by simp
  have c1: "absoluteDir (join (PUBLIC_DIR root) rel)"
      "inside (PUBLIC_DIR root) (join (PUBLIC_DIR root) rel)"
    using join_absolute[OF pub seg] by simp_all
  have c2: "absoluteDir (join root rel)" "inside root (join root rel)"
    using join_absolute[OF assms(1) seg] by simp_all
  have "probe fs (candidatesOf root rel) = Inr (Some p)"
    using assms(2,4) by (simp add: resolveFilePath_def)
  from probe_result[OF this]
  consider "p = join (PUBLIC_DIR root) rel" | "p = join (join (PUBLIC_DIR root) rel) ''index.html''"
    | "p = join root rel" | "p = join (join root rel) ''index.html''"
    by (auto simp: candidatesOf_def)
  then have "(inside (PUBLIC_DIR root) p \<or> inside root p) \<and> absoluteDir p"
  proof cases
    case 1
    then show ?thesis using c1 by simp
  next
    case 2
    then show ?thesis using index_absolute[OF c1(1)] c1(2) inside_trans by blast
  next
    case 3
    then show ?thesis using c2 by simp
  next
    case 4
    then show ?thesis using index_absolute[OF c2(1)] c2(2) inside_trans by blast
  qed
  then show ?thesis using c1(2) c2(2) by simp
qed

subsection \<open>The integer read from the port variable\<close>

lemma takeWhile_digits:
  "list_all isDigit ds \<Longrightarrow> rest = [] \<or> \<not> isDigit (hd rest) \<Longrightarrow>
   takeWhile isDigit (ds @ rest) = ds"
  by (cases rest) (auto simp: list_all_iff takeWhile_append)

lemma sign_not_digit: "\<not> isDigit CHR ''+''" "\<not> isDigit CHR ''-''"
  by (simp_all add: isDigit_def)

lemma decimal_nonneg_aux:
  "0 \<le> acc \<Longrightarrow> list_all isDigit ds \<Longrightarrow>
   0 \<le> foldl (\<lambda>acc c. 10 * acc + (of_char c - 48)) (acc :: int) ds"
proof (induction ds arbitrary: acc)
  case Nil
  then show ?case by simp
next
  case (Cons d ds)
  have "(48 :: nat) \<le> of_char d" using Cons.prems(2) by (simp add: isDigit_def)
  moreover have "(of_char d :: int) = int (of_char d)" by (simp only: of_nat_of_char)
  ultimately have "(48 :: int) \<le> of_char d" by linarith
  then have "0 \<le> 10 * acc + (of_char d - 48)" using Cons.prems(1) by simp
  then show ?case using Cons.IH Cons.prems(2) by simp
qed

lemma decimal_nonneg: "list_all isDigit ds \<Longrightarrow> 0 \<le> decimal ds"
  unfolding decimal_def by (rule decimal_nonneg_aux) simp_all

lemma bitLength_lower: "0 < n \<Longrightarrow> 2 ^ (bitLength n - 1) \<le> n"
proof (induction n rule: bitLength.induct)
  case (1 n)
  show ?case
  proof (cases "n div 2 \<le> 0")
    case True
    then have "bitLength (n div 2) = 0" by (simp add: bitLength.simps)
    then show ?thesis using "1.prems" by (simp add: bitLength.simps[of n])
  next
    case False
    then have pos: "0 < n div 2" by simp
    have ih: "2 ^ (bitLength (n div 2) - 1) \<le> n div 2"
      using "1.IH" "1.prems" pos by simp
    have b: "0 < bitLength (n div 2)" using pos by (simp add: bitLength.simps[of "n div 2"])
    then have "(2::int) ^ bitLength (n div 2) = 2 * 2 ^ (bitLength (n div 2) - 1)"
      by (cases "bitLength (n div 2)") simp_all
    then have "(2::int) ^ bitLength (n div 2) \<le> n" using ih by simp
    then show ?thesis using "1.prems" by (simp add: bitLength.simps[of n])
  qed
qed

lemma roundToDouble_pos: "0 < n \<Longrightarrow> 0 < roundToDouble n"
proof (cases "n < 2 ^ 53")
  case True
  assume "0 < n"
  then show ?thesis using True by (simp add: roundToDouble_def)
next
  case False
  assume n: "0 < n"
  define k where "k = bitLength n - 53"
  define q where "q = n div 2 ^ k"
  have "(2::int) ^ k \<le> 2 ^ (bitLength n - 1)"
    by (rule power_increasing) (simp_all add: k_def)
  from order_trans[OF this bitLength_lower[OF n]] have "2 ^ k \<le> n" .
  then have "0 < q" unfolding q_def
    using pos_imp_zdiv_pos_iff[of "2 ^ k" n] by simp
  then have q: "1 \<le> q" by simp
  have p: "(0::int) < 2 ^ k" by simp
  have "0 < q * 2 ^ k" "0 < (q + 1) * 2 ^ k" using q p by simp_all
  then show ?thesis using False
    by (simp add: roundToDouble_def Let_def k_def[symmetric] q_def[symmetric])
qed

lemma toNumber_cases:
  "0 < n \<Longrightarrow> toNumber n = PosInfinity \<or> (\<exists>v. toNumber n = Finite v \<and> v \<noteq> 0)"
  using roundToDouble_pos[of n] by (auto simp: toNumber_def Let_def)

lemma toNumber_small: "n < 2 ^ 53 \<Longrightarrow> toNumber n = Finite n"
  by (simp add: toNumber_def roundToDouble_def)

lemma falsy_toNumber:
  assumes "0 < n"
  shows "(case toNumber n of NaN \<Rightarrow> Finite 3000 | Finite v \<Rightarrow> if v = 0 then Finite 3000 else Finite v
          | PosInfinity \<Rightarrow> PosInfinity | NegInfinity \<Rightarrow> NegInfinity) = toNumber n"
    and "(case negate (toNumber n) of NaN \<Rightarrow> Finite 3000
          | Finite v \<Rightarrow> if v = 0 then Finite 3000 else Finite v
          | PosInfinity \<Rightarrow> PosInfinity | NegInfinity \<Rightarrow> NegInfinity) = negate (toNumber n)"
  using toNumber_cases[OF assms] by auto

lemma toNumber_zero: "toNumber 0 = Finite 0"
  by (simp add: toNumber_small)

lemma parseInt10_parts:
  assumes "trimStart s = sg @ ds @ rest"
    and "sg \<in> {[], ''+'', ''-''}" and "list_all isDigit ds"
    and "rest = [] \<or> \<not> isDigit (hd rest)"
    and "sg = [] \<and> ds = [] \<longrightarrow> rest = [] \<or> (hd rest \<noteq> CHR ''+'' \<and> hd rest \<noteq> CHR ''-'')"
  shows "parseInt10 s =
     (if ds = [] then NaN
      else if sg = ''-'' then negate (toNumber (decimal ds)) else toNumber (decimal ds))"
proof (cases "sg = []")
  case True
  have n1: "\<not> (ds @ rest \<noteq> [] \<and> hd (ds @ rest) = CHR ''-'')"
    using assms(3,5) True sign_not_digit by (cases ds) auto
  have n2: "\<not> (ds @ rest \<noteq> [] \<and> (hd (ds @ rest) = CHR ''+'' \<or> hd (ds @ rest) = CHR ''-''))"
    using assms(3,5) True sign_not_digit by (cases ds) auto
  have t: "trimStart s = ds @ rest" using assms(1) True by simp
  show ?thesis
    unfolding parseInt10_def t Let_def if_not_P[OF n1] if_not_P[OF n2]
      takeWhile_digits[OF assms(3,4)] using True by simp
next
  case False
  then obtain c where sg: "sg = [c]" and c: "c = CHR ''+'' \<or> c = CHR ''-''"
    using assms(2) by auto
  have t: "trimStart s = c # ds @ rest" using assms(1) sg by simp
  show ?thesis
    unfolding parseInt10_def t Let_def using c sg takeWhile_digits[OF assms(3,4)] by auto
qed

lemma port_decomposition:
  "\<exists>sg ds rest. trimStart s = sg @ ds @ rest \<and> sg \<in> {[], ''+'', ''-''} \<and> list_all isDigit ds \<and>
     (rest = [] \<or> \<not> isDigit (hd rest)) \<and>
     (sg = [] \<and> ds = [] \<longrightarrow> rest = [] \<or> (hd rest \<noteq> CHR ''+'' \<and> hd rest \<noteq> CHR ''-''))"
proof -
  define t where "t = trimStart s"
  define sg where "sg = (if t \<noteq> [] \<and> (hd t = CHR ''+'' \<or> hd t = CHR ''-'') then [hd t] else [])"
  define t' where "t' = drop (length sg) t"
  define ds where "ds = takeWhile isDigit t'"
  define rest where "rest = dropWhile isDigit t'"
  have a: "t = sg @ ds @ rest"
    unfolding ds_def rest_def t'_def sg_def by (cases t) auto
  have b: "sg \<in> {[], ''+'', ''-''}" unfolding sg_def by auto
  have c: "list_all isDigit ds" unfolding ds_def by (auto simp: list_all_iff dest: set_takeWhileD)
  have d: "rest = [] \<or> \<not> isDigit (hd rest)" unfolding rest_def
    using hd_dropWhile[of isDigit t'] by auto
  have e: "sg = [] \<and> ds = [] \<longrightarrow> rest = [] \<or> (hd rest \<noteq> CHR ''+'' \<and> hd rest \<noteq> CHR ''-'')"
  proof (intro impI)
    assume h: "sg = [] \<and> ds = []"
    then have "t = rest" using a by simp
    then show "rest = [] \<or> (hd rest \<noteq> CHR ''+'' \<and> hd rest \<noteq> CHR ''-'')"
      using h unfolding sg_def by (auto split: if_splits)
  qed
  show ?thesis using a b c d e unfolding t_def by blast
qed

subsection \<open>Requests without a path\<close>

text \<open>
  Claim C8. When the request has no path or an empty path, the server answers 400 with
  the plain-text body \<^verbatim>\<open>Bad Request\<close> and the response is complete when the handler
  returns. The answer is the same on every file system, whatever \<^verbatim>\<open>statSync\<close> would
  report or throw: the resolver is not called and no stream is opened.
\<close>

theorem missing_path_is_bad_request:
  "requestHandler fs root None freshResponse =
     Inr (Completed \<lparr>header = Some (400, ''text/plain; charset=utf-8''),
                      body = ''Bad Request'', ended = True\<rparr>) \<and>
   requestHandler fs root (Some []) freshResponse =
     Inr (Completed \<lparr>header = Some (400, ''text/plain; charset=utf-8''),
                      body = ''Bad Request'', ended = True\<rparr>) \<and>
   serve fs root None =
     Inr \<lparr>header = Some (400, ''text/plain; charset=utf-8''),
          body = ''Bad Request'', ended = True\<rparr> \<and>
   serve fs root (Some []) =
     Inr \<lparr>header = Some (400, ''text/plain; charset=utf-8''),
          body = ''Bad Request'', ended = True\<rparr>"
  by (simp add: serve_def requestHandler_def respond_def writeHead_def end_with_def
      freshResponse_def)

theorem missing_path_is_bad_request_witness:
  "serve exampleFs ''/srv/app'' None =
     Inr \<lparr>header = Some (400, ''text/plain; charset=utf-8''),
          body = ''Bad Request'', ended = True\<rparr> \<and>
   serve exampleFs ''/srv/app'' (Some []) =
     Inr \<lparr>header = Some (400, ''text/plain; charset=utf-8''),
          body = ''Bad Request'', ended = True\<rparr>"
  using missing_path_is_bad_request [of exampleFs "''/srv/app''"] by simp

subsection \<open>Parent-directory traversal\<close>

text \<open>
  Claim C1. The request target \<^verbatim>\<open>http://h/../../..\<close> (and the request path \<^verbatim>\<open>../..\<close>)
  normalizes to leading parent segments of which the pattern of line 328 strips all
  but the last: a bare \<^verbatim>\<open>..\<close> has no separator after it and is left in place. The
  root candidate is then the parent of the root directory, and the resolver returns its
  \<^verbatim>\<open>index.html\<close>, a file outside the public directory and outside the root directory.
\<close>

theorem traversal_escapes_counterexample:
  "relativePathOf ''../..'' = Inr ''..'' \<and>
   resolveFilePath exampleFs ''/srv/app'' ''../..'' = Inr (Some ''/srv/index.html'') \<and>
   resolveFilePath exampleFs ''/srv/app'' ''http://h/../../..'' = Inr (Some ''/srv/index.html'') \<and>
   join ''/srv/app'' ''..'' = ''/srv'' \<and>
   \<not> inside (PUBLIC_DIR ''/srv/app'') ''/srv/index.html'' \<and>
   \<not> inside ''/srv/app'' ''/srv/index.html'' \<and>
   \<not> inside ''/srv/app'' (join ''/srv/app'' ''..'')"
  by code_simp

subsection \<open>What the resolver returns\<close>

text \<open>
  Claim C3. The request path \<^verbatim>\<open>/docs\<close> names a directory of the public directory
  whose entry \<^verbatim>\<open>index.html\<close> is a directory. The candidate itself is tested with
  \<^verbatim>\<open>isFile\<close>, the index path only with \<^verbatim>\<open>existsSync\<close>: the resolver returns the index
  path, which is not a regular file.
\<close>

theorem index_directory_is_returned:
  "resolveFilePath exampleFs ''/srv/app'' ''/docs'' =
     Inr (Some ''/srv/app/public/docs/index.html'') \<and>
   stat_of exampleFs ''/srv/app/public/docs'' = IsDirectory \<and>
   stat_of exampleFs ''/srv/app/public/docs/index.html'' = IsDirectory \<and>
   stat_of exampleFs ''/srv/app/public/docs/index.html'' \<noteq> IsFile"
  by code_simp

subsection \<open>A path that cannot be decoded\<close>

text \<open>
  Claim C4, as stated, fails: the path \<^verbatim>\<open>/%zz\<close> has a malformed escape sequence,
  \<^verbatim>\<open>decodeURIComponent\<close> throws, and the answer is 500, not 400.
\<close>

theorem malformed_escape_counterexample:
  "decodeURIComponent (hd (split_on CHR ''?'' ''/%zz'')) = Inl URIError \<and>
   serve exampleFs ''/srv/app'' (Some ''/%zz'') =
     Inr \<lparr>header = Some (500, ''text/plain; charset=utf-8''),
          body = ''Internal Server Error'', ended = True\<rparr> \<and>
   serve exampleFs ''/srv/app'' (Some ''/%zz'') \<noteq>
     Inr \<lparr>header = Some (400, ''text/plain; charset=utf-8''),
          body = ''Bad Request'', ended = True\<rparr>"
  by code_simp

text \<open>
  Claim C4, amended. When the path of a request, cut at the first question mark, fails
  percent-decoding, the exception of the resolver is caught by the handler, which
  answers 500 with the plain-text body \<^verbatim>\<open>Internal Server Error\<close>: neither 400 nor 404.
\<close>

theorem malformed_escape_is_server_error:
  assumes "decodeURIComponent (hd (split_on CHR ''?'' u)) = Inl e"
  shows "requestHandler fs root (Some u) freshResponse =
           Inr (Completed \<lparr>header = Some (500, ''text/plain; charset=utf-8''),
                            body = ''Internal Server Error'', ended = True\<rparr>) \<and>
         serve fs root (Some u) =
           Inr \<lparr>header = Some (500, ''text/plain; charset=utf-8''),
                body = ''Internal Server Error'', ended = True\<rparr>"
proof -
  have "u \<noteq> []" using assms by auto
  moreover have "resolveFilePath fs root u = Inl e"
    using assms by (simp add: resolveFilePath_def relativePathOf_def)
  ultimately show ?thesis
    by (simp add: serve_def requestHandler_def respond_def writeHead_def end_with_def
        freshResponse_def)
qed

theorem malformed_escape_is_server_error_witness:
  "decodeURIComponent (hd (split_on CHR ''?'' ''/a%2'')) = Inl URIError \<and>
   serve exampleFs ''/srv/app'' (Some ''/a%2'') =
     Inr \<lparr>header = Some (500, ''text/plain; charset=utf-8''),
          body = ''Internal Server Error'', ended = True\<rparr>"
proof -
  have h: "decodeURIComponent (hd (split_on CHR ''?'' ''/a%2'')) = Inl URIError" by code_simp
  from malformed_escape_is_server_error[OF h, of exampleFs "''/srv/app''"] h
  show ?thesis by blast
qed

subsection \<open>An error of the read stream\<close>

text \<open>
  Claim C5. The file \<^verbatim>\<open>secret.txt\<close> of the public directory is found by the resolver
  and cannot be opened: its stream emits an error and nothing else. The handler has
  called \<^verbatim>\<open>writeHead(200)\<close> before it returned, as the argument of \<^verbatim>\<open>pipe\<close>; the
  listener of the error calls \<^verbatim>\<open>writeHead(500)\<close> on a response whose header is there,
  and \<^verbatim>\<open>ERR_HTTP_HEADERS_SENT\<close> is thrown out of the listener. No 500 response is
  produced.
\<close>

theorem stream_error_throws:
  "resolveFilePath exampleFs ''/srv/app'' ''/secret.txt'' =
     Inr (Some ''/srv/app/public/secret.txt'') \<and>
   stream_of exampleFs ''/srv/app/public/secret.txt'' = [StreamError] \<and>
   requestHandler exampleFs ''/srv/app'' (Some ''/secret.txt'') freshResponse =
     Inr (Piping \<lparr>header = Some (200, ''text/plain; charset=utf-8''), body = [], ended = False\<rparr>
            ''/srv/app/public/secret.txt'') \<and>
   serve exampleFs ''/srv/app'' (Some ''/secret.txt'') = Inl ERR_HTTP_HEADERS_SENT"
  by code_simp

subsection \<open>The two candidates\<close>

text \<open>
  Claim C2, as stated, fails: for the request path \<^verbatim>\<open>/app.js/x\<close>, where \<^verbatim>\<open>app.js\<close> is a
  regular file of the public directory, \<^verbatim>\<open>statSync\<close> fails on the public candidate
  with \<^verbatim>\<open>ENOTDIR\<close>; the loop rethrows the error instead of going on to the root
  candidate, and the answer is 500 although neither candidate yields a file.
\<close>

theorem not_found_counterexample:
  "relativePathOf ''/app.js/x'' = Inr ''/app.js/x'' \<and>
   candidatesOf ''/srv/app'' ''/app.js/x'' = [''/srv/app/public/app.js/x'', ''/srv/app/app.js/x''] \<and>
   stat_of exampleFs ''/srv/app/public/app.js'' = IsFile \<and>
   stat_of exampleFs ''/srv/app/public/app.js/x'' = StatError ''ENOTDIR'' \<and>
   candidateYields exampleFs ''/srv/app/public/app.js/x'' = None \<and>
   candidateYields exampleFs ''/srv/app/app.js/x'' = None \<and>
   resolveFilePath exampleFs ''/srv/app'' ''/app.js/x'' = Inl (FsError ''ENOTDIR'') \<and>
   serve exampleFs ''/srv/app'' (Some ''/app.js/x'') =
     Inr \<lparr>header = Some (500, ''text/plain; charset=utf-8''),
          body = ''Internal Server Error'', ended = True\<rparr> \<and>
   serve exampleFs ''/srv/app'' (Some ''/app.js/x'') \<noteq>
     Inr \<lparr>header = Some (404, ''text/plain; charset=utf-8''),
          body = ''Not Found'', ended = True\<rparr>"
  by code_simp

text \<open>
  Claim C2, amended. For every request path that percent-decodes, to the relative
  path \<open>rel\<close>, the candidates are \<open>rel\<close> joined to the public directory and \<open>rel\<close> joined
  to the root directory, in this order, and they are probed in this order. A candidate
  on which \<^verbatim>\<open>statSync\<close> fails with an error other than \<^verbatim>\<open>ENOENT\<close> ends the
  resolution: the error is rethrown and the server answers 500. Otherwise a candidate
  that does not exist is passed over; a regular file is returned at once (on every file
  system where the public candidate is a regular file it is the result, whatever the
  root candidate is); a directory gives its \<^verbatim>\<open>index.html\<close> when present and is passed
  over when not, as is any other kind of entry. When both candidates are passed over
  the resolver returns \<^verbatim>\<open>null\<close> and the server answers 404 with the body
  \<^verbatim>\<open>Not Found\<close>.
\<close>

theorem two_candidates_in_order:
  assumes "relativePathOf u = Inr rel"
  shows "candidatesOf root rel = [join (PUBLIC_DIR root) rel, join root rel] \<and>
         resolveFilePath fs root u =
           (case statFailure fs (join (PUBLIC_DIR root) rel) of
              Some e \<Rightarrow> Inl e
            | None \<Rightarrow>
                (case candidateYields fs (join (PUBLIC_DIR root) rel) of
                   Some p \<Rightarrow> Inr (Some p)
                 | None \<Rightarrow>
                     (case statFailure fs (join root rel) of
                        Some e \<Rightarrow> Inl e
                      | None \<Rightarrow> Inr (candidateYields fs (join root rel))))) \<and>
         (stat_of fs (join (PUBLIC_DIR root) rel) = IsFile \<longrightarrow>
            (\<forall>fs'. stat_of fs' (join (PUBLIC_DIR root) rel) = IsFile \<longrightarrow>
               resolveFilePath fs' root u = Inr (Some (join (PUBLIC_DIR root) rel)))) \<and>
         (u \<noteq> [] \<and> statFailure fs (join (PUBLIC_DIR root) rel) = None \<and>
          candidateYields fs (join (PUBLIC_DIR root) rel) = None \<and>
          statFailure fs (join root rel) = None \<and>
          candidateYields fs (join root rel) = None \<longrightarrow>
            serve fs root (Some u) =
              Inr \<lparr>header = Some (404, ''text/plain; charset=utf-8''),
                   body = ''Not Found'', ended = True\<rparr>) \<and>
         (u \<noteq> [] \<and>
          (statFailure fs (join (PUBLIC_DIR root) rel) \<noteq> None \<or>
           (candidateYields fs (join (PUBLIC_DIR root) rel) = None \<and>
            statFailure fs (join root rel) \<noteq> None)) \<longrightarrow>
            serve fs root (Some u) =
              Inr \<lparr>header = Some (500, ''text/plain; charset=utf-8''),
                   body = ''Internal Server Error'', ended = True\<rparr>)"
proof -
  define c1 where "c1 = join (PUBLIC_DIR root) rel"
  define c2 where "c2 = join root rel"
  have cs: "candidatesOf root rel = [c1, c2]" by (simp add: candidatesOf_def c1_def c2_def)
  have r: "\<And>fs'. resolveFilePath fs' root u = probe fs' [c1, c2]"
    using assms(1) cs by (simp add: resolveFilePath_def)
  have last: "probe fs [c2] =
      (case statFailure fs c2 of Some e \<Rightarrow> Inl e | None \<Rightarrow> Inr (candidateYields fs c2))"
    unfolding probe_step[of fs c2 "[]"] by (simp split: option.splits)
  have res: "resolveFilePath fs root u =
      (case statFailure fs c1 of
         Some e \<Rightarrow> Inl e
       | None \<Rightarrow>
           (case candidateYields fs c1 of
              Some p \<Rightarrow> Inr (Some p)
            | None \<Rightarrow>
                (case statFailure fs c2 of
                   Some e \<Rightarrow> Inl e
                 | None \<Rightarrow> Inr (candidateYields fs c2))))"
    unfolding r probe_step[of fs c1 "[c2]"] last ..
  have isfile: "\<And>fs'. stat_of fs' c1 = IsFile \<Longrightarrow> resolveFilePath fs' root u = Inr (Some c1)"
    using r probe_file by simp
  have nf: "u \<noteq> [] \<and> statFailure fs c1 = None \<and> candidateYields fs c1 = None \<and>
      statFailure fs c2 = None \<and> candidateYields fs c2 = None \<longrightarrow>
      serve fs root (Some u) =
        Inr \<lparr>header = Some (404, ''text/plain; charset=utf-8''),
             body = ''Not Found'', ended = True\<rparr>"
    using res serve_not_found[of u fs root] by simp
  have th: "u \<noteq> [] \<and> (statFailure fs c1 \<noteq> None \<or>
        (candidateYields fs c1 = None \<and> statFailure fs c2 \<noteq> None)) \<longrightarrow>
      serve fs root (Some u) =
        Inr \<lparr>header = Some (500, ''text/plain; charset=utf-8''),
             body = ''Internal Server Error'', ended = True\<rparr>"
  proof (intro impI)
    assume a: "u \<noteq> [] \<and> (statFailure fs c1 \<noteq> None \<or>
        (candidateYields fs c1 = None \<and> statFailure fs c2 \<noteq> None))"
    then have "\<exists>e. resolveFilePath fs root u = Inl e"
      unfolding res by (auto split: option.splits)
    then show "serve fs root (Some u) =
        Inr \<lparr>header = Some (500, ''text/plain; charset=utf-8''),
             body = ''Internal Server Error'', ended = True\<rparr>"
      using a serve_thrown by blast
  qed
  show ?thesis using cs res isfile nf th unfolding c1_def c2_def by blast
qed

theorem two_candidates_in_order_witness:
  "relativePathOf ''/server.js'' = Inr ''/server.js'' \<and>
   resolveFilePath exampleFs ''/srv/app'' ''/server.js'' = Inr (Some ''/srv/app/server.js'') \<and>
   relativePathOf ''/missing.png'' = Inr ''/missing.png'' \<and>
   serve exampleFs ''/srv/app'' (Some ''/missing.png'') =
     Inr \<lparr>header = Some (404, ''text/plain; charset=utf-8''),
          body = ''Not Found'', ended = True\<rparr>"
proof -
  have h1: "relativePathOf ''/server.js'' = Inr ''/server.js''" by code_simp
  have e: "(case statFailure exampleFs (join (PUBLIC_DIR ''/srv/app'') ''/server.js'') of
              Some e \<Rightarrow> Inl e
            | None \<Rightarrow>
                (case candidateYields exampleFs (join (PUBLIC_DIR ''/srv/app'') ''/server.js'') of
                   Some p \<Rightarrow> Inr (Some p)
                 | None \<Rightarrow>
                     (case statFailure exampleFs (join ''/srv/app'' ''/server.js'') of
                        Some e \<Rightarrow> Inl e
                      | None \<Rightarrow> Inr (candidateYields exampleFs (join ''/srv/app'' ''/server.js''))))) =
           Inr (Some ''/srv/app/server.js'')"
    by code_simp
  from two_candidates_in_order[where fs = exampleFs and root = "''/srv/app''", OF h1,
      THEN conjunct2, THEN conjunct1]
  have a: "resolveFilePath exampleFs ''/srv/app'' ''/server.js'' = Inr (Some ''/srv/app/server.js'')"
    unfolding e .
  have h2: "relativePathOf ''/missing.png'' = Inr ''/missing.png''" by code_simp
  have g: "''/missing.png'' \<noteq> [] \<and>
      statFailure exampleFs (join (PUBLIC_DIR ''/srv/app'') ''/missing.png'') = None \<and>
      candidateYields exampleFs (join (PUBLIC_DIR ''/srv/app'') ''/missing.png'') = None \<and>
      statFailure exampleFs (join ''/srv/app'' ''/missing.png'') = None \<and>
      candidateYields exampleFs (join ''/srv/app'' ''/missing.png'') = None"
    by code_simp
  from two_candidates_in_order[where fs = exampleFs and root = "''/srv/app''", OF h2,
      THEN conjunct2, THEN conjunct2, THEN conjunct2, THEN conjunct1] g
  have b: "serve exampleFs ''/srv/app'' (Some ''/missing.png'') =
     Inr \<lparr>header = Some (404, ''text/plain; charset=utf-8''),
          body = ''Not Found'', ended = True\<rparr>"
    by blast
  show ?thesis using h1 a h2 b by blast
qed

subsection \<open>The root path\<close>

text \<open>
  Claim C6. When the public directory contains the regular file \<^verbatim>\<open>index.html\<close>, the
  requests for \<^verbatim>\<open>/\<close> and for \<^verbatim>\<open>/index.html\<close> get the same response: for both, the
  handler writes the status 200 and the content type \<^verbatim>\<open>text/html; charset=utf-8\<close> and
  pipes that file, so that the served body is the same as well.
\<close>

theorem root_is_index_html:
  assumes "stat_of fs (join (PUBLIC_DIR root) ''/index.html'') = IsFile"
  shows "serve fs root (Some ''/'') = serve fs root (Some ''/index.html'') \<and>
         requestHandler fs root (Some ''/'') freshResponse =
           Inr (Piping \<lparr>header = Some (200, ''text/html; charset=utf-8''),
                         body = [], ended = False\<rparr> (join (PUBLIC_DIR root) ''/index.html'')) \<and>
         requestHandler fs root (Some ''/index.html'') freshResponse =
           Inr (Piping \<lparr>header = Some (200, ''text/html; charset=utf-8''),
                         body = [], ended = False\<rparr> (join (PUBLIC_DIR root) ''/index.html''))"
proof -
  define p where "p = join (PUBLIC_DIR root) ''/index.html''"
  have r1: "relativePathOf ''/'' = Inr ''/index.html''" by code_simp
  have r2: "relativePathOf ''/index.html'' = Inr ''/index.html''" by code_simp
  have pub: "PUBLIC_DIR root \<noteq> []" by (simp add: PUBLIC_DIR_def)
  have "p = normalize_path ((PUBLIC_DIR root @ ''/'') @ ''/index.html'')"
    using pub by (simp add: p_def join_def)
  then have ext: "extname p = ''.html''"
    by (simp only: extname_normalize_index)
  have f1: "resolveFilePath fs root ''/'' = Inr (Some p)"
    using assms r1 probe_file by (simp add: resolveFilePath_def candidatesOf_def p_def)
  have f2: "resolveFilePath fs root ''/index.html'' = Inr (Some p)"
    using assms r2 probe_file by (simp add: resolveFilePath_def candidatesOf_def p_def)
  have h1: "requestHandler fs root (Some ''/'') freshResponse =
      Inr (Piping \<lparr>header = Some (200, ''text/html; charset=utf-8''), body = [], ended = False\<rparr> p)"
    using requestHandler_found[OF _ f1] contentTypeOf_html[OF ext] by simp
  have h2: "requestHandler fs root (Some ''/index.html'') freshResponse =
      Inr (Piping \<lparr>header = Some (200, ''text/html; charset=utf-8''), body = [], ended = False\<rparr> p)"
    using requestHandler_found[OF _ f2] contentTypeOf_html[OF ext] by simp
  have "serve fs root (Some ''/'') = serve fs root (Some ''/index.html'')"
    unfolding serve_def h1 h2 ..
  then show ?thesis using h1 h2 unfolding p_def by simp
qed

theorem root_is_index_html_witness:
  "stat_of exampleFs (join (PUBLIC_DIR ''/srv/app'') ''/index.html'') = IsFile \<and>
   serve exampleFs ''/srv/app'' (Some ''/'') = serve exampleFs ''/srv/app'' (Some ''/index.html'') \<and>
   serve exampleFs ''/srv/app'' (Some ''/'') =
     Inr \<lparr>header = Some (200, ''text/html; charset=utf-8''), body = ''<h1>Shop</h1>'',
          ended = True\<rparr>"
proof -
  have h: "stat_of exampleFs (join (PUBLIC_DIR ''/srv/app'') ''/index.html'') = IsFile"
    by code_simp
  have v: "serve exampleFs ''/srv/app'' (Some ''/'') =
     Inr \<lparr>header = Some (200, ''text/html; charset=utf-8''), body = ''<h1>Shop</h1>'',
          ended = True\<rparr>"
    by code_simp
  from root_is_index_html[OF h, THEN conjunct1] h v show ?thesis by blast
qed

subsection \<open>The content type\<close>

text \<open>
  Claim C7. For a request with a non-empty path that the resolver resolves to a file,
  the handler writes the status 200 with the content type that the MIME table of the
  specification gives for the lowercased extension of the resolved file, and pipes
  that file; when the lowercased extension is not a key of \<^verbatim>\<open>MIME_TYPES\<close> the content
  type is \<^verbatim>\<open>application/octet-stream\<close>; and when the stream delivers the content and
  ends, the response is 200 with this content type and the content as its body.
\<close>

theorem content_type_from_extension:
  assumes "u \<noteq> []" and "resolveFilePath fs root u = Inr (Some p)"
  shows "requestHandler fs root (Some u) freshResponse =
           Inr (Piping \<lparr>header = Some (200, specContentType (extname p)),
                         body = [], ended = False\<rparr> p) \<and>
         (toLowerCase (extname p) \<notin> set (map fst MIME_TYPES) \<longrightarrow>
            requestHandler fs root (Some u) freshResponse =
              Inr (Piping \<lparr>header = Some (200, ''application/octet-stream''),
                            body = [], ended = False\<rparr> p)) \<and>
         (stream_of fs p = [Data d, StreamEnd] \<longrightarrow>
            serve fs root (Some u) =
              Inr \<lparr>header = Some (200, specContentType (extname p)), body = d, ended = True\<rparr>)"
proof -
  have h: "requestHandler fs root (Some u) freshResponse =
           Inr (Piping \<lparr>header = Some (200, specContentType (extname p)),
                         body = [], ended = False\<rparr> p)"
    using requestHandler_found[OF assms] by (simp add: contentTypeOf_spec)
  have o: "toLowerCase (extname p) \<notin> set (map fst MIME_TYPES) \<longrightarrow>
      specContentType (extname p) = ''application/octet-stream''"
    by (simp add: specContentType_def MIME_TYPES_def Let_def)
  have s: "stream_of fs p = [Data d, StreamEnd] \<longrightarrow>
            serve fs root (Some u) =
              Inr \<lparr>header = Some (200, specContentType (extname p)), body = d, ended = True\<rparr>"
    using h pipe_one_chunk by (simp add: serve_def)
  show ?thesis using h o s by simp
qed

theorem content_type_from_extension_witness:
  "resolveFilePath exampleFs ''/srv/app'' ''/photo.PNG'' =
     Inr (Some ''/srv/app/public/photo.PNG'') \<and>
   requestHandler exampleFs ''/srv/app'' (Some ''/photo.PNG'') freshResponse =
     Inr (Piping \<lparr>header = Some (200, ''image/png''), body = [], ended = False\<rparr>
            ''/srv/app/public/photo.PNG'') \<and>
   resolveFilePath exampleFs ''/srv/app'' ''/data.bin'' =
     Inr (Some ''/srv/app/public/data.bin'') \<and>
   toLowerCase (extname ''/srv/app/public/data.bin'') \<notin> set (map fst MIME_TYPES) \<and>
   requestHandler exampleFs ''/srv/app'' (Some ''/data.bin'') freshResponse =
     Inr (Piping \<lparr>header = Some (200, ''application/octet-stream''), body = [], ended = False\<rparr>
            ''/srv/app/public/data.bin'')"
proof -
  have n1: "''/photo.PNG'' \<noteq> []" by simp
  have h1: "resolveFilePath exampleFs ''/srv/app'' ''/photo.PNG'' =
     Inr (Some ''/srv/app/public/photo.PNG'')" by code_simp
  have e1: "specContentType (extname ''/srv/app/public/photo.PNG'') = ''image/png''"
    by code_simp
  have n2: "''/data.bin'' \<noteq> []" by simp
  have h2: "resolveFilePath exampleFs ''/srv/app'' ''/data.bin'' =
     Inr (Some ''/srv/app/public/data.bin'')" by code_simp
  have e2: "toLowerCase (extname ''/srv/app/public/data.bin'') \<notin> set (map fst MIME_TYPES)"
    by code_simp
  from content_type_from_extension[OF n1 h1, THEN conjunct1]
  have a: "requestHandler exampleFs ''/srv/app'' (Some ''/photo.PNG'') freshResponse =
     Inr (Piping \<lparr>header = Some (200, ''image/png''), body = [], ended = False\<rparr>
            ''/srv/app/public/photo.PNG'')"
    unfolding e1 .
  from content_type_from_extension[OF n2 h2, THEN conjunct2, THEN conjunct1] e2
  have b: "requestHandler exampleFs ''/srv/app'' (Some ''/data.bin'') freshResponse =
     Inr (Piping \<lparr>header = Some (200, ''application/octet-stream''), body = [], ended = False\<rparr>
            ''/srv/app/public/data.bin'')"
    by blast
  show ?thesis using h1 a h2 e2 b by blast
qed

subsection \<open>The content type of a directory index\<close>

text \<open>
  Claim C10. When a candidate of the request path is a directory and the resolver
  returns the \<^verbatim>\<open>index.html\<close> joined to it, the handler writes the status 200 with the
  content type \<^verbatim>\<open>text/html; charset=utf-8\<close>, the type of the extension of the resolved
  file, whatever the extension in the request path: a request for \<^verbatim>\<open>/foo.png\<close>, a
  directory with an \<^verbatim>\<open>index.html\<close>, is answered as HTML.
\<close>

theorem index_fallback_is_html:
  assumes "u \<noteq> []" and "relativePathOf u = Inr rel"
    and "c \<in> set (candidatesOf root rel)"
    and "stat_of fs c = IsDirectory"
    and "resolveFilePath fs root u = Inr (Some (join c ''index.html''))"
  shows "requestHandler fs root (Some u) freshResponse =
           Inr (Piping \<lparr>header = Some (200, ''text/html; charset=utf-8''),
                         body = [], ended = False\<rparr> (join c ''index.html'')) \<and>
         contentTypeOf (join c ''index.html'') = ''text/html; charset=utf-8''"
proof -
  have "c \<noteq> []" using assms(3) by (rule candidates_nonempty)
  then have "contentTypeOf (join c ''index.html'') = ''text/html; charset=utf-8''"
    using extname_join_index contentTypeOf_html by simp
  then show ?thesis using requestHandler_found[OF assms(1,5)] by simp
qed

theorem index_fallback_is_html_witness:
  "relativePathOf ''/foo.png'' = Inr ''/foo.png'' \<and>
   ''/srv/app/public/foo.png'' \<in> set (candidatesOf ''/srv/app'' ''/foo.png'') \<and>
   stat_of exampleFs ''/srv/app/public/foo.png'' = IsDirectory \<and>
   join ''/srv/app/public/foo.png'' ''index.html'' = ''/srv/app/public/foo.png/index.html'' \<and>
   requestHandler exampleFs ''/srv/app'' (Some ''/foo.png'') freshResponse =
     Inr (Piping \<lparr>header = Some (200, ''text/html; charset=utf-8''), body = [], ended = False\<rparr>
            ''/srv/app/public/foo.png/index.html'')"
proof -
  have h1: "''/foo.png'' \<noteq> []" by simp
  have h2: "relativePathOf ''/foo.png'' = Inr ''/foo.png''" by code_simp
  have h3: "''/srv/app/public/foo.png'' \<in> set (candidatesOf ''/srv/app'' ''/foo.png'')"
    by code_simp
  have h4: "stat_of exampleFs ''/srv/app/public/foo.png'' = IsDirectory" by code_simp
  have j: "join ''/srv/app/public/foo.png'' ''index.html'' = ''/srv/app/public/foo.png/index.html''"
    by code_simp
  have h5: "resolveFilePath exampleFs ''/srv/app'' ''/foo.png'' =
      Inr (Some (join ''/srv/app/public/foo.png'' ''index.html''))"
    by code_simp
  from index_fallback_is_html[OF h1 h2 h3 h4 h5, THEN conjunct1]
  have "requestHandler exampleFs ''/srv/app'' (Some ''/foo.png'') freshResponse =
     Inr (Piping \<lparr>header = Some (200, ''text/html; charset=utf-8''), body = [], ended = False\<rparr>
            ''/srv/app/public/foo.png/index.html'')"
    unfolding j .
  then show ?thesis using h2 h3 h4 j by blast
qed

subsection \<open>The listen port\<close>

text \<open>
  Claim C9, as stated, fails: the input \<^verbatim>\<open>0\<close> is numeric, \<^verbatim>\<open>parseInt\<close> reads the
  integer 0 from it, and the port is 3000, since zero is falsy for the \<^verbatim>\<open>||\<close> of line
  308.
\<close>

theorem port_zero_counterexample:
  "parseInt10 ''0'' = Finite 0 \<and> PORT (Some ''0'') = Finite 3000 \<and> PORT (Some ''0'') \<noteq> Finite 0"
  by code_simp

text \<open>
  Claim C9, amended. The port is 3000 when the variable is not set. When it is set,
  write the input without its leading white space as an optional sign, the longest run
  of decimal digits after it, and the rest. The port is 3000 when there are no digits
  and when their value is zero; otherwise it is the Number nearest to the value of the
  digits, negated after a minus sign, whatever the rest is. That Number is the value
  itself when the value is below \<open>2^53\<close>.
\<close>

theorem port_value:
  assumes "trimStart s = sg @ ds @ rest"
    and "sg \<in> {[], ''+'', ''-''}" and "list_all isDigit ds"
    and "rest = [] \<or> \<not> isDigit (hd rest)"
    and "sg = [] \<and> ds = [] \<longrightarrow> rest = [] \<or> (hd rest \<noteq> CHR ''+'' \<and> hd rest \<noteq> CHR ''-'')"
  shows "PORT None = Finite 3000 \<and>
         PORT (Some s) =
           (if ds = [] \<or> decimal ds = 0 then Finite 3000
            else if sg = ''-'' then negate (toNumber (decimal ds)) else toNumber (decimal ds)) \<and>
         (decimal ds < 2 ^ 53 \<longrightarrow> toNumber (decimal ds) = Finite (decimal ds))"
proof -
  have none: "PORT None = Finite 3000" by code_simp
  have p: "parseInt10 s =
     (if ds = [] then NaN
      else if sg = ''-'' then negate (toNumber (decimal ds)) else toNumber (decimal ds))"
    using assms by (rule parseInt10_parts)
  have some: "PORT (Some s) =
           (if ds = [] \<or> decimal ds = 0 then Finite 3000
            else if sg = ''-'' then negate (toNumber (decimal ds)) else toNumber (decimal ds))"
  proof (cases "ds = []")
    case True
    then show ?thesis using p by (simp add: PORT_def)
  next
    case False
    note ne = False
    show ?thesis
    proof (cases "decimal ds = 0")
      case True
      then show ?thesis using p ne by (simp add: PORT_def toNumber_zero)
    next
      case False
      then have pos: "0 < decimal ds" using decimal_nonneg[OF assms(3)] by simp
      show ?thesis using p ne False falsy_toNumber[OF pos] by (simp add: PORT_def)
    qed
  qed
  show ?thesis using none some toNumber_small by simp
qed

theorem port_value_witness:
  "trimStart [CHR 0xC2, CHR 0xA0, CHR '' '', CHR ''+'', CHR ''8'', CHR ''0'', CHR ''8'', CHR ''0'',
              CHR ''p'', CHR ''x''] = ''+'' @ ''8080'' @ ''px'' \<and>
   PORT (Some [CHR 0xC2, CHR 0xA0, CHR '' '', CHR ''+'', CHR ''8'', CHR ''0'', CHR ''8'', CHR ''0'',
               CHR ''p'', CHR ''x'']) = Finite 8080 \<and>
   trimStart ''-9007199254740993'' = ''-'' @ ''9007199254740993'' @ [] \<and>
   PORT (Some ''-9007199254740993'') = Finite (- 9007199254740992) \<and>
   trimStart ''abc'' = [] @ [] @ ''abc'' \<and>
   PORT (Some ''abc'') = Finite 3000"
proof -
  have a1: "trimStart [CHR 0xC2, CHR 0xA0, CHR '' '', CHR ''+'', CHR ''8'', CHR ''0'', CHR ''8'',
      CHR ''0'', CHR ''p'', CHR ''x''] = ''+'' @ ''8080'' @ ''px''" by code_simp
  have a2: "''+'' \<in> {[], ''+'', ''-''}" by simp
  have a3: "list_all isDigit ''8080''" by code_simp
  have a4: "''px'' = [] \<or> \<not> isDigit (hd ''px'')" by code_simp
  have a5: "''+'' = [] \<and> ''8080'' = [] \<longrightarrow>
      ''px'' = [] \<or> (hd ''px'' \<noteq> CHR ''+'' \<and> hd ''px'' \<noteq> CHR ''-'')" by simp
  have ae: "(if ''8080'' = [] \<or> decimal ''8080'' = 0 then Finite 3000
            else if ''+'' = ''-'' then negate (toNumber (decimal ''8080''))
            else toNumber (decimal ''8080'')) = Finite 8080" by code_simp
  from port_value[OF a1 a2 a3 a4 a5, THEN conjunct2, THEN conjunct1]
  have a: "PORT (Some [CHR 0xC2, CHR 0xA0, CHR '' '', CHR ''+'', CHR ''8'', CHR ''0'', CHR ''8'',
      CHR ''0'', CHR ''p'', CHR ''x'']) = Finite 8080"
    unfolding ae .
  have b1: "trimStart ''-9007199254740993'' = ''-'' @ ''9007199254740993'' @ []" by code_simp
  have b2: "''-'' \<in> {[], ''+'', ''-''}" by simp
  have b3: "list_all isDigit ''9007199254740993''" by code_simp
  have b4: "[] = [] \<or> \<not> isDigit (hd [])" by simp
  have b5: "''-'' = [] \<and> ''9007199254740993'' = [] \<longrightarrow>
      [] = [] \<or> (hd [] \<noteq> CHR ''+'' \<and> hd [] \<noteq> CHR ''-'')" by simp
  have be: "(if ''9007199254740993'' = [] \<or> decimal ''9007199254740993'' = 0 then Finite 3000
            else if ''-'' = ''-'' then negate (toNumber (decimal ''9007199254740993''))
            else toNumber (decimal ''9007199254740993'')) = Finite (- 9007199254740992)"
    by code_simp
  from port_value[OF b1 b2 b3 b4 b5, THEN conjunct2, THEN conjunct1]
  have b: "PORT (Some ''-9007199254740993'') = Finite (- 9007199254740992)"
    unfolding be .
  have c1: "trimStart ''abc'' = [] @ [] @ ''abc''" by code_simp
  have c2: "[] \<in> {[], ''+'', ''-''}" by simp
  have c3: "list_all isDigit []" by simp
  have c4: "''abc'' = [] \<or> \<not> isDigit (hd ''abc'')" by code_simp
  have c5: "[] = [] \<and> [] = [] \<longrightarrow>
      ''abc'' = [] \<or> (hd ''abc'' \<noteq> CHR ''+'' \<and> hd ''abc'' \<noteq> CHR ''-'')" by simp
  from port_value[OF c1 c2 c3 c4 c5, THEN conjunct2, THEN conjunct1]
  have c: "PORT (Some ''abc'') = Finite 3000" by simp
  show ?thesis using a1 a b1 b c1 c by blast
qed

end
